theory Spec2Isabelle
  imports Complex_Main
begin

unbundle bit_operations_syntax

section \<open>NumPy values\<close>

text \<open>
  The sample table is a NumPy array of dtype int64 (\<open>read_data\<close> allocates it with
  \<open>dtype=numpy.int64\<close>). An int64 is modelled as an \<open>int\<close> in the range of
  \<open>is_int64\<close>; array arithmetic on int64 wraps around silently, which \<open>wrap64\<close>
  writes out.
\<close>

definition is_int64 :: "int \<Rightarrow> bool" where
  "is_int64 x \<longleftrightarrow> - (2 ^ 63) \<le> x \<and> x < 2 ^ 63"

definition wrap64 :: "int \<Rightarrow> int" where
  "wrap64 x = (x + 2 ^ 63) mod 2 ^ 64 - 2 ^ 63"

text \<open>
  The exceptions the analysis and its driver can end with. \<open>SystemExit msg c\<close> is
  \<open>sys.exit(c)\<close>, with the line the driver printed to stderr just before it.
\<close>

datatype error = AssertionError | ValueError | SystemExit string int

text \<open>
  An array is its shape and its buffer in row-major order. A slice such as
  \<open>data[:,1]\<close> is a view: it reads and writes the buffer of \<open>data\<close>.
\<close>

record ndarray =
  shape :: "nat list"
  buf :: "int list"

definition wf_ndarray :: "ndarray \<Rightarrow> bool" where
  "wf_ndarray a \<longleftrightarrow> length (buf a) = prod_list (shape a) \<and> list_all is_int64 (buf a)"

text \<open>\<open>data[:,j]\<close> of a two-dimensional array, read out as a list.\<close>

definition column :: "nat \<Rightarrow> ndarray \<Rightarrow> int list" where
  "column j a = map (\<lambda>i. buf a ! (i * (shape a ! 1) + j)) [0..<shape a ! 0]"

text \<open>
  \<open>v[lo:hi] -= rhs\<close> where \<open>v\<close> is the view \<open>a[:,j]\<close>: the subtraction is written into
  the buffer of \<open>a\<close>. The right-hand side must have the length of the slice, or length
  1 (it is then broadcast); anything else raises ValueError.
\<close>

definition isub_column :: "nat \<Rightarrow> nat \<Rightarrow> nat \<Rightarrow> int list \<Rightarrow> ndarray \<Rightarrow> error + ndarray" where
  "isub_column j lo hi rhs a =
     (if length rhs = hi - lo \<or> length rhs = 1 then
        Inr (a\<lparr>buf :=
          map (\<lambda>k. let i = k div (shape a ! 1) in
                 if k mod (shape a ! 1) = j \<and> lo \<le> i \<and> i < hi
                 then wrap64 (buf a ! k - (if length rhs = hi - lo then rhs ! (i - lo) else rhs ! 0))
                 else buf a ! k)
            [0..<length (buf a)]\<rparr>)
      else Inl ValueError)"

text \<open>\<open>xs + ys\<close> on one-dimensional int64 arrays.\<close>

definition np_add :: "int list \<Rightarrow> int list \<Rightarrow> error + int list" where
  "np_add xs ys =
     (if length xs = length ys then Inr (map2 (\<lambda>x y. wrap64 (x + y)) xs ys)
      else if length ys = 1 then Inr (map (\<lambda>x. wrap64 (x + ys ! 0)) xs)
      else if length xs = 1 then Inr (map (\<lambda>y. wrap64 (xs ! 0 + y)) ys)
      else Inl ValueError)"

text \<open>\<open>numpy.amin\<close> and \<open>numpy.amax\<close> raise ValueError on an empty array.\<close>

definition amin :: "'a::linorder list \<Rightarrow> error + 'a" where
  "amin xs = (case xs of [] \<Rightarrow> Inl ValueError | x # r \<Rightarrow> Inr (fold min r x))"

definition amax :: "'a::linorder list \<Rightarrow> error + 'a" where
  "amax xs = (case xs of [] \<Rightarrow> Inl ValueError | x # r \<Rightarrow> Inr (fold max r x))"

subsection \<open>Floating point\<close>

text \<open>
  A float64 is modelled by the real number it approximates: rounding, overflow and the
  sign of zero are not modelled, and an int64 is converted without loss. Division and
  \<open>log10\<close> are the two operations of the analysis whose IEEE result can be an
  infinity or a NaN (NumPy warns and carries on, it does not raise), so their results
  live in \<open>fl\<close>. The divisors of the analysis are a standard deviation and a maximum
  of magnitudes, so a zero divisor is \<open>+0\<close>.

  The program rounds where this model does not, so the model does not give the value of
  a float64 figure of the report, and no theorem below states one as a function of the
  samples. What is proved of the float64 figures is what rounding leaves alone: that
  computing them raises nothing, that they depend on the sine column only, and how SINAD
  and ENOB follow from the amplitude and the rms error of the same report. Where an
  example table is evaluated, what the theorems use of it is a zero or a sign that the
  program's own arithmetic gives on that table as well.
\<close>

datatype fl = Fin real | PInf | NInf | NaN

definition np_divide :: "real \<Rightarrow> real \<Rightarrow> fl" where
  "np_divide x y =
     (if y \<noteq> 0 then Fin (x / y) else if 0 < x then PInf else if x < 0 then NInf else NaN)"

fun np_log10 :: "fl \<Rightarrow> fl" where
  "np_log10 (Fin x) = (if 0 < x then Fin (log 10 x) else if x = 0 then NInf else NaN)"
| "np_log10 PInf = PInf"
| "np_log10 NInf = NaN"
| "np_log10 NaN = NaN"

text \<open>\<open>c * v\<close>, \<open>v - c\<close> and \<open>v / c\<close> for a finite constant \<open>c\<close>.\<close>

fun fl_times :: "real \<Rightarrow> fl \<Rightarrow> fl" where
  "fl_times c (Fin x) = Fin (c * x)"
| "fl_times c PInf = (if 0 < c then PInf else if c < 0 then NInf else NaN)"
| "fl_times c NInf = (if 0 < c then NInf else if c < 0 then PInf else NaN)"
| "fl_times c NaN = NaN"

fun fl_minus :: "fl \<Rightarrow> real \<Rightarrow> fl" where
  "fl_minus (Fin x) c = Fin (x - c)"
| "fl_minus PInf c = PInf"
| "fl_minus NInf c = NInf"
| "fl_minus NaN c = NaN"

fun fl_divide :: "fl \<Rightarrow> real \<Rightarrow> fl" where
  "fl_divide (Fin x) c = np_divide x c"
| "fl_divide PInf c = (if 0 \<le> c then PInf else NInf)"
| "fl_divide NInf c = (if 0 \<le> c then NInf else PInf)"
| "fl_divide NaN c = NaN"

text \<open>\<open>numpy.mean\<close>; the analysis calls it on arrays of length \<open>n \<ge> 4\<close> only.\<close>

definition np_mean :: "real list \<Rightarrow> real" where
  "np_mean xs = sum_list xs / real (length xs)"

text \<open>\<open>numpy.std\<close> with its default \<open>ddof=0\<close>: \<open>sqrt(mean(abs(x - x.mean())**2))\<close>.\<close>

definition np_std :: "real list \<Rightarrow> real" where
  "np_std xs = sqrt (np_mean (map (\<lambda>x. \<bar>x - np_mean xs\<bar> ^ 2) xs))"

text \<open>\<open>numpy.arctan2(y, x)\<close>: the angle of the point \<open>(x, y)\<close>, in \<open>(-pi, pi]\<close>.\<close>

definition arctan2 :: "real \<Rightarrow> real \<Rightarrow> real" where
  "arctan2 y x =
     (if 0 < x then arctan (y / x)
      else if x < 0 then (if 0 \<le> y then arctan (y / x) + pi else arctan (y / x) - pi)
      else if 0 < y then pi / 2
      else if y < 0 then - (pi / 2)
      else 0)"

text \<open>
  \<open>numpy.fft.rfft\<close> of a real array of length \<open>n\<close>: the bins \<open>0 .. n div 2\<close> of its
  discrete Fourier transform.
\<close>

definition rfft :: "real list \<Rightarrow> complex list" where
  "rfft x =
     (let n = length x in
      map (\<lambda>k. sum_list (map (\<lambda>m. of_real (x ! m) * cis (- (2 * pi * real k * real m / real n))) [0..<n]))
        [0..<n div 2 + 1])"

section \<open>The analysis\<close>

text \<open>The figures \<open>eval_sine_quality\<close> prints, in the order it prints them.\<close>

record report =
  cos_min :: int
  cos_max :: int
  half_min :: int
  half_max :: int
  offset :: real
  amplitude :: real
  phase_offset :: real
  peak_error :: real
  rms_error :: real
  sinad_db :: fl
  enob_bits :: fl
  sfdr_db :: fl

text \<open>
  The analysis is one function in the source; its blocks, each under its own comment
  there, are given one definition each, and \<open>eval_sine_quality\<close> runs them in the
  order of the source. \<open>n\<close> is \<open>data.shape[0]\<close>, \<open>dsin\<close> the copy of column 0.
\<close>

text \<open>
  "Check that cosine is an exact phase-shifted version of sine." \<open>dcos\<close> is the view
  \<open>data[:,1]\<close>, so both \<open>-=\<close> write into \<open>data\<close>; the array comes back with the
  range.
\<close>

definition phase_shift_check :: "nat \<Rightarrow> int list \<Rightarrow> ndarray \<Rightarrow> error + (int \<times> int) \<times> ndarray" where
  "phase_shift_check n dsin data =
     (case isub_column 1 0 (3 * n div 4) (drop (n div 4) dsin) data of
        Inl e \<Rightarrow> Inl e
      | Inr data1 \<Rightarrow>
     (case isub_column 1 (3 * n div 4) n (take (n div 4) dsin) data1 of
        Inl e \<Rightarrow> Inl e
      | Inr data2 \<Rightarrow>
     (case amin (column 1 data2) of
        Inl e \<Rightarrow> Inl e
      | Inr tmin \<Rightarrow>
     (case amax (column 1 data2) of
        Inl e \<Rightarrow> Inl e
      | Inr tmax \<Rightarrow> Inr ((tmin, tmax), data2)))))"

text \<open>"Check that 180 degree phase shift is equivalent to sign negation."\<close>

definition negation_check :: "nat \<Rightarrow> int list \<Rightarrow> error + int \<times> int" where
  "negation_check n dsin =
     (case np_add (take (n div 2) dsin) (drop (n div 2) dsin) of
        Inl e \<Rightarrow> Inl e
      | Inr t \<Rightarrow>
     (case amin t of
        Inl e \<Rightarrow> Inl e
      | Inr tmin \<Rightarrow>
     (case amax t of
        Inl e \<Rightarrow> Inl e
      | Inr tmax \<Rightarrow> Inr (tmin, tmax))))"

text \<open>
  "Determine amplitude and phase." \<open>tref_sin n\<close> is
  \<open>numpy.sin(2 * numpy.pi / n * numpy.arange(n))\<close>, \<open>tref_cos n\<close> the same with
  \<open>numpy.cos\<close>, and \<open>project n fsin tref\<close> is \<open>numpy.sum(dsin * tref) * 2.0 / n\<close>,
  where \<open>fsin\<close> is \<open>dsin\<close> converted to float64 as the product does.
\<close>

definition tref_sin :: "nat \<Rightarrow> real list" where
  "tref_sin n = map (\<lambda>i. sin (2 * pi / real n * real i)) [0..<n]"

definition tref_cos :: "nat \<Rightarrow> real list" where
  "tref_cos n = map (\<lambda>i. cos (2 * pi / real n * real i)) [0..<n]"

definition project :: "nat \<Rightarrow> real list \<Rightarrow> real list \<Rightarrow> real" where
  "project n fsin tref = sum_list (map2 (*) fsin tref) * 2 / real n"

text \<open>
  "Determine peak and rms deviation." \<open>terr\<close> is \<open>dsin - tref\<close> with
  \<open>tref = ampl * numpy.sin(2 * numpy.pi / n * numpy.arange(n))\<close>.
\<close>

definition terr :: "nat \<Rightarrow> real \<Rightarrow> real list \<Rightarrow> real list" where
  "terr n a fsin = map2 (-) fsin (map (\<lambda>i. a * sin (2 * pi / real n * real i)) [0..<n])"

text \<open>"Calculate SNR and effective number of bits."\<close>

definition sinad_of :: "real \<Rightarrow> real \<Rightarrow> fl" where
  "sinad_of a rmserr = fl_times 20 (np_log10 (np_divide (a * sqrt 0.5) rmserr))"

definition enob_of :: "fl \<Rightarrow> fl" where
  "enob_of sinad = fl_divide (fl_minus sinad 1.76) 6.02"

text \<open>"Determine spurious-free dynamic range."\<close>

definition sfdr_of :: "real list \<Rightarrow> error + fl" where
  "sfdr_of fsin =
     (let q = rfft fsin; tampl = cmod (q ! 1) in
      case amax (map cmod (drop 2 q)) of
        Inl e \<Rightarrow> Inl e
      | Inr tspur \<Rightarrow> Inr (fl_times 20 (np_log10 (np_divide tampl tspur))))"

text \<open>
  \<open>eval_sine_quality(data)\<close>. The result is the report together with the array the
  caller passed, as the call leaves it.
\<close>

definition eval_sine_quality :: "ndarray \<Rightarrow> error + report \<times> ndarray" where
  "eval_sine_quality data =
     (if length (shape data) \<noteq> 2 then Inl AssertionError
      else if shape data ! 1 \<noteq> 2 then Inl AssertionError
      else if \<not> (shape data ! 0 \<ge> 4 \<and> shape data ! 0 mod 4 = 0) then Inl AssertionError
      else
        let n = shape data ! 0;
            dsin = column 0 data;
            fsin = map real_of_int dsin
        in
        case phase_shift_check n dsin data of
          Inl e \<Rightarrow> Inl e
        | Inr (cr, data2) \<Rightarrow>
        (case negation_check n dsin of
          Inl e \<Rightarrow> Inl e
        | Inr hr \<Rightarrow>
        (let a = sqrt ((project n fsin (tref_sin n))\<^sup>2 + (project n fsin (tref_cos n))\<^sup>2) in
         case amax (map abs (terr n a fsin)) of
          Inl e \<Rightarrow> Inl e
        | Inr peakerr \<Rightarrow>
        (case sfdr_of fsin of
          Inl e \<Rightarrow> Inl e
        | Inr sfdr \<Rightarrow>
          Inr (\<lparr> cos_min = fst cr, cos_max = snd cr,
                 half_min = fst hr, half_max = snd hr,
                 offset = np_mean fsin,
                 amplitude = a,
                 phase_offset = arctan2 (project n fsin (tref_cos n)) (project n fsin (tref_sin n)),
                 peak_error = peakerr,
                 rms_error = np_std (terr n a fsin),
                 sinad_db = sinad_of a (np_std (terr n a fsin)),
                 enob_bits = enob_of (sinad_of a (np_std (terr n a fsin))),
                 sfdr_db = sfdr \<rparr>,
               data2)))))"

text \<open>
  The checks of \<open>main\<close> between \<open>read_data\<close> and the call of the analysis. Both
  failures end the program with \<open>sys.exit(1)\<close>; the shape is a tuple of Python
  integers, so \<open>&\<close> is the bitwise and of \<open>int\<close>.
\<close>

definition check_shape :: "ndarray \<Rightarrow> error + unit" where
  "check_shape data =
     (if length (shape data) \<noteq> 2 \<or> shape data ! 1 \<noteq> 2
        then Inl (SystemExit ''ERROR: Expected array of shape (N, 2)'' 1)
      else if int (shape data ! 0) < 4 \<or> (int (shape data ! 0) AND (int (shape data ! 0) - 1)) \<noteq> 0
        then Inl (SystemExit ''ERROR: Expected power-of-two record length'' 1)
      else Inr ())"

definition main_checked :: "ndarray \<Rightarrow> error + report \<times> ndarray" where
  "main_checked data =
     (case check_shape data of Inl e \<Rightarrow> Inl e | Inr _ \<Rightarrow> eval_sine_quality data)"

section \<open>Sample sets\<close>

definition nsamples :: "ndarray \<Rightarrow> nat" where
  "nsamples d = shape d ! 0"

definition sin_values :: "ndarray \<Rightarrow> int list" where
  "sin_values d = column 0 d"

definition cos_values :: "ndarray \<Rightarrow> int list" where
  "cos_values d = column 1 d"

text \<open>
  A valid sample set is an int64 array that passes the checks of the driver. The
  analysis itself asserts less: \<open>accepted\<close> is what its three assertions ask for.
\<close>

definition valid_sample_set :: "ndarray \<Rightarrow> bool" where
  "valid_sample_set d \<longleftrightarrow> wf_ndarray d \<and> check_shape d = Inr ()"

definition accepted :: "ndarray \<Rightarrow> bool" where
  "accepted d \<longleftrightarrow>
     wf_ndarray d \<and> length (shape d) = 2 \<and> shape d ! 1 = 2 \<and>
     4 \<le> nsamples d \<and> nsamples d mod 4 = 0"

text \<open>
  The difference the quarter-period check forms at position \<open>i\<close>, as int64 subtraction
  gives it, and the array with these differences in its cosine column and everything
  else as before. That this is the array the two \<open>-=\<close> leave is proved below
  (\<open>phase_shift_writes\<close>).
\<close>

definition quarter_diff :: "ndarray \<Rightarrow> nat \<Rightarrow> int" where
  "quarter_diff d i =
     (if i < 3 * nsamples d div 4
      then wrap64 (cos_values d ! i - sin_values d ! (i + nsamples d div 4))
      else wrap64 (cos_values d ! i - sin_values d ! (i - 3 * nsamples d div 4)))"

definition overwritten :: "ndarray \<Rightarrow> ndarray" where
  "overwritten d =
     d\<lparr>buf := map (\<lambda>k. if odd k then quarter_diff d (k div 2) else buf d ! k)
                 [0..<length (buf d)]\<rparr>"

text \<open>The sum the half-period check forms at position \<open>i\<close>, as int64 addition gives it.\<close>

definition half_sum :: "ndarray \<Rightarrow> nat \<Rightarrow> int" where
  "half_sum d i = wrap64 (sin_values d ! i + sin_values d ! (i + nsamples d div 2))"

text \<open>
  The values of the local variables of the analysis on the array \<open>d\<close>: the sine column
  as float64, \<open>asin\<close>, \<open>acos\<close>, \<open>ampl\<close> and \<open>terr\<close>.
\<close>

definition fsin_of :: "ndarray \<Rightarrow> real list" where
  "fsin_of d = map real_of_int (sin_values d)"

definition asin_of :: "ndarray \<Rightarrow> real" where
  "asin_of d = project (nsamples d) (fsin_of d) (tref_sin (nsamples d))"

definition acos_of :: "ndarray \<Rightarrow> real" where
  "acos_of d = project (nsamples d) (fsin_of d) (tref_cos (nsamples d))"

definition ampl_of :: "ndarray \<Rightarrow> real" where
  "ampl_of d = sqrt ((asin_of d)\<^sup>2 + (acos_of d)\<^sup>2)"

definition terr_of :: "ndarray \<Rightarrow> real list" where
  "terr_of d = terr (nsamples d) (ampl_of d) (fsin_of d)"

text \<open>
  The two identities in the words of the specification, in unbounded integers: the
  difference \<open>cos[i] - sin[(i + N/4) mod N]\<close> and the sum \<open>sin[i] + sin[i + N/2]\<close>.
\<close>

definition spec_quarter_diff :: "ndarray \<Rightarrow> nat \<Rightarrow> int" where
  "spec_quarter_diff d i =
     cos_values d ! i - sin_values d ! ((i + nsamples d div 4) mod nsamples d)"

definition spec_half_sum :: "ndarray \<Rightarrow> nat \<Rightarrow> int" where
  "spec_half_sum d i = sin_values d ! i + sin_values d ! (i + nsamples d div 2)"

text \<open>What a caller sees of one run: the array it passed, and the two ranges printed.\<close>

definition array_after :: "ndarray \<Rightarrow> error + ndarray" where
  "array_after d = map_sum id snd (eval_sine_quality d)"

definition cosine_range :: "ndarray \<Rightarrow> error + int \<times> int" where
  "cosine_range d = map_sum id (\<lambda>p. (cos_min (fst p), cos_max (fst p))) (eval_sine_quality d)"

definition half_range :: "ndarray \<Rightarrow> error + int \<times> int" where
  "half_range d = map_sum id (\<lambda>p. (half_min (fst p), half_max (fst p))) (eval_sine_quality d)"

text \<open>What one run prints for the rms error, SINAD and ENOB.\<close>

definition rms_result :: "ndarray \<Rightarrow> error + real" where
  "rms_result d = map_sum id (\<lambda>p. rms_error (fst p)) (eval_sine_quality d)"

definition sinad_result :: "ndarray \<Rightarrow> error + fl" where
  "sinad_result d = map_sum id (\<lambda>p. sinad_db (fst p)) (eval_sine_quality d)"

definition enob_result :: "ndarray \<Rightarrow> error + fl" where
  "enob_result d = map_sum id (\<lambda>p. enob_bits (fst p)) (eval_sine_quality d)"

section \<open>Example arrays\<close>

text \<open>
  One period of a sine of amplitude 1 with its cosine, four samples; and a table of three
  rows, which the driver turns away.
\<close>

definition sample4 :: ndarray where
  "sample4 = \<lparr>shape = [4, 2], buf = [0, 1, 1, 0, 0, - 1, - 1, 0]\<rparr>"

definition short3 :: ndarray where
  "short3 = \<lparr>shape = [3, 2], buf = [0, 1, 1, 0, 0, - 1]\<rparr>"

text \<open>A table of twelve rows of zeros: twelve is a multiple of four and no power of two.\<close>

definition twelve :: ndarray where
  "twelve = \<lparr>shape = [12, 2], buf = replicate 24 0\<rparr>"

text \<open>
  Two tables of four rows at the edge of int64: one whose first cosine is the least int64
  next to a sine of 1, one whose sines are all the least int64.
\<close>

definition wrapped4 :: ndarray where
  "wrapped4 = \<lparr>shape = [4, 2], buf = [0, - 9223372036854775808, 1, 0, 0, 0, 0, 0]\<rparr>"

definition lowest4 :: ndarray where
  "lowest4 = \<lparr>shape = [4, 2],
     buf = [- 9223372036854775808, 0, - 9223372036854775808, 0,
            - 9223372036854775808, 0, - 9223372036854775808, 0]\<rparr>"

text \<open>
  A table of four rows whose sine column \<open>[0, 3, 0, -1]\<close> is no pure tone, a table of
  zeros, and a table whose sine column \<open>[-2, -1, -2, -3]\<close> is a tone of amplitude 1 on
  the level \<open>-2\<close>, so that its error sequence is constant.
\<close>

definition uneven4 :: ndarray where
  "uneven4 = \<lparr>shape = [4, 2], buf = [0, 1, 3, 0, 0, - 1, - 1, 0]\<rparr>"

definition zeros4 :: ndarray where
  "zeros4 = \<lparr>shape = [4, 2], buf = [0, 0, 0, 0, 0, 0, 0, 0]\<rparr>"

definition level4 :: ndarray where
  "level4 = \<lparr>shape = [4, 2], buf = [- 2, - 1, - 1, - 2, - 2, - 3, - 3, - 2]\<rparr>"

section \<open>Arithmetic of int64 and of the reductions\<close>

lemma wrap64_id: "is_int64 x \<Longrightarrow> wrap64 x = x"
  by (simp add: is_int64_def wrap64_def)

lemma is_int64_wrap64: "is_int64 (wrap64 x)"
proof -
  have "0 \<le> (x + 2 ^ 63) mod 2 ^ 64" "(x + 2 ^ 63) mod 2 ^ 64 < (2 ^ 64 :: int)"
    by simp_all
  then show ?thesis
    by (simp add: is_int64_def wrap64_def)
qed

lemma wrap64_cong_zero:
  assumes "wrap64 x = 0" "- (2 ^ 64) < x" "x < 2 ^ 64"
  shows "x = 0"
proof -
  define q where "q = (x + 2 ^ 63) div 2 ^ 64"
  have "x + 2 ^ 63 = 2 ^ 64 * q + (x + 2 ^ 63) mod 2 ^ 64"
    unfolding q_def by (rule mult_div_mod_eq [symmetric])
  moreover have "(x + 2 ^ 63) mod 2 ^ 64 = 2 ^ 63"
    using assms(1) by (simp add: wrap64_def)
  ultimately have x: "x = 2 ^ 64 * q" by simp
  with assms(2,3) have "- 1 < q" "q < 1" by simp_all
  with x show ?thesis by simp
qed

lemma wrap64_diff_zero:
  assumes "is_int64 a" "is_int64 b"
  shows "wrap64 (a - b) = 0 \<longleftrightarrow> a = b"
proof
  assume "a = b" then show "wrap64 (a - b) = 0" by (simp add: wrap64_def)
next
  assume w: "wrap64 (a - b) = 0"
  have "- (2 ^ 64) < a - b" "a - b < 2 ^ 64"
    using assms by (simp_all add: is_int64_def)
  with w have "a - b = 0" by (rule wrap64_cong_zero)
  then show "a = b" by simp
qed

lemma amin_Min: "xs \<noteq> [] \<Longrightarrow> amin xs = Inr (Min (set xs))"
proof (cases xs)
  case (Cons a r)
  then show ?thesis using Min.set_eq_fold [of a r] by (simp add: amin_def)
qed simp

lemma amax_Max: "xs \<noteq> [] \<Longrightarrow> amax xs = Inr (Max (set xs))"
proof (cases xs)
  case (Cons a r)
  then show ?thesis using Max.set_eq_fold [of a r] by (simp add: amax_def)
qed simp

section \<open>Powers of two\<close>

lemma and_pred_even: "0 < m \<Longrightarrow> (2 * m) AND (2 * m - 1) = 2 * (m AND (m - 1))" for m :: nat
proof -
  assume mpos: "0 < m"
  have d: "(2 * m - Suc 0) div 2 = m - Suc 0" using mpos by arith
  have "(2 * m) AND (2 * m - 1) =
      of_bool (odd (2 * m) \<and> odd (2 * m - 1)) + 2 * (((2 * m) div 2) AND ((2 * m - 1) div 2))"
    by (rule and_nat_rec)
  also have "\<dots> = 2 * (m AND (m - 1))" by (simp add: d)
  finally show ?thesis .
qed

lemma and_pred_odd: "(2 * m + 1) AND (2 * m + 1 - 1) = 2 * m" for m :: nat
proof -
  have "(2 * m + 1) AND (2 * m) =
      of_bool (odd (2 * m + 1) \<and> odd (2 * m)) + 2 * (((2 * m + 1) div 2) AND ((2 * m) div 2))"
    by (rule and_nat_rec)
  also have "\<dots> = 2 * m" by simp
  finally show ?thesis by simp
qed

lemma pow2_even_half: "0 < m \<Longrightarrow> (\<exists>k. 2 * m = 2 ^ k) \<longleftrightarrow> (\<exists>k. m = 2 ^ k)" for m :: nat
proof
  assume mpos: "0 < m" and "\<exists>k. 2 * m = 2 ^ k"
  then obtain k where k: "2 * m = 2 ^ k" by blast
  have "k \<noteq> 0"
  proof
    assume "k = 0"
    with k have "2 * m = 1" by simp
    then show False by presburger
  qed
  then obtain j where "k = Suc j" by (cases k) simp_all
  with k have "m = 2 ^ j" by simp
  then show "\<exists>k. m = 2 ^ k" ..
next
  assume "\<exists>k. m = 2 ^ k"
  then obtain k where "m = 2 ^ k" ..
  then have "2 * m = 2 ^ Suc k" by simp
  then show "\<exists>k. 2 * m = 2 ^ k" ..
qed

lemma odd_not_pow2: "0 < m \<Longrightarrow> \<not> (\<exists>k. 2 * m + 1 = 2 ^ k)" for m :: nat
proof
  assume mpos: "0 < m" and "\<exists>k. 2 * m + 1 = 2 ^ k"
  then obtain k where k: "2 * m + 1 = 2 ^ k" by blast
  show False
  proof (cases k)
    case 0
    with k mpos show False by simp
  next
    case (Suc j)
    with k have eq: "2 * m + 1 = 2 * 2 ^ j" by simp
    have ev: "even ((2::nat) * 2 ^ j)" by simp
    have "odd (2 * m + 1)" by simp
    then have "odd ((2::nat) * 2 ^ j)" unfolding eq .
    with ev show False by blast
  qed
qed

lemma and_pred_nat: "0 < n \<Longrightarrow> (n AND (n - 1) = 0) \<longleftrightarrow> (\<exists>k. n = 2 ^ k)" for n :: nat
proof (induction n rule: less_induct)
  case (less n)
  show ?case
  proof (cases "even n")
    case True
    then obtain m where m: "n = 2 * m" by (auto elim: evenE)
    with less.prems have mpos: "0 < m" by simp
    have mn: "m < n" using m mpos by simp
    have ih: "(m AND (m - 1) = 0) \<longleftrightarrow> (\<exists>k. m = 2 ^ k)"
      by (rule less.IH [OF mn mpos])
    have "(n AND (n - 1) = 0) \<longleftrightarrow> (m AND (m - 1) = 0)"
      unfolding m and_pred_even [OF mpos] by simp
    also have "\<dots> \<longleftrightarrow> (\<exists>k. m = 2 ^ k)" by (rule ih)
    also have "\<dots> \<longleftrightarrow> (\<exists>k. n = 2 ^ k)"
      unfolding m by (rule pow2_even_half [OF mpos, symmetric])
    finally show ?thesis .
  next
    case False
    then obtain m where m: "n = 2 * m + 1" by (auto elim: oddE)
    show ?thesis
    proof (cases "m = 0")
      case True
      with m have "n = 2 ^ 0" by simp
      moreover have "n AND (n - 1) = 0" using m True by simp
      ultimately show ?thesis by blast
    next
      case False
      then have mpos: "0 < m" by simp
      have "n AND (n - 1) \<noteq> 0"
        unfolding m and_pred_odd using mpos by simp
      moreover have "\<not> (\<exists>k. n = 2 ^ k)"
        unfolding m by (rule odd_not_pow2 [OF mpos])
      ultimately show ?thesis by blast
    qed
  qed
qed

lemma and_pred_int:
  assumes n: "0 < n"
  shows "(int n AND (int n - 1) = 0) \<longleftrightarrow> (\<exists>k. n = 2 ^ k)"
proof -
  have e: "int n - 1 = int (n - 1)" using n by simp
  have a: "int n AND (int n - 1) = int (n AND (n - 1))"
    unfolding e by (rule of_nat_and_eq [symmetric])
  show ?thesis
    unfolding a of_nat_eq_0_iff by (rule and_pred_nat [OF n])
qed

lemma pow2_ge4_mod4:
  fixes n :: nat
  assumes "4 \<le> n" "n = 2 ^ k"
  shows "n mod 4 = 0"
proof -
  have "\<not> k < 2"
  proof
    assume "k < 2"
    then have "k = 0 \<or> k = 1" by auto
    with assms show False by auto
  qed
  then have "k = (k - 2) + 2" by simp
  then obtain j where "k = j + 2" ..
  with assms show ?thesis by simp
qed

section \<open>Columns and shapes\<close>

lemma length_column: "length (column j a) = shape a ! 0"
  by (simp add: column_def)

lemma nth_column: "i < shape a ! 0 \<Longrightarrow> column j a ! i = buf a ! (i * (shape a ! 1) + j)"
  by (simp add: column_def)

lemma isub_column_1:
  assumes "length rhs = hi - lo" "shape a ! 1 = 2"
  shows "isub_column 1 lo hi rhs a =
     Inr (a\<lparr>buf := map (\<lambda>k. if odd k \<and> lo \<le> k div 2 \<and> k div 2 < hi
                             then wrap64 (buf a ! k - rhs ! (k div 2 - lo)) else buf a ! k)
                        [0..<length (buf a)]\<rparr>)"
  using assms by (simp add: isub_column_def Let_def odd_iff_mod_2_eq_one)

lemma accepted_shape:
  assumes "accepted d"
  shows "shape d = [nsamples d, 2]" and "length (buf d) = 2 * nsamples d"
proof -
  from assms have l: "length (shape d) = 2" and s1: "shape d ! 1 = 2"
    and w: "length (buf d) = prod_list (shape d)"
    by (simp_all add: accepted_def wf_ndarray_def)
  from l obtain a b where ab: "shape d = [a, b]"
    by (auto simp: numeral_2_eq_2 length_Suc_conv)
  with s1 show "shape d = [nsamples d, 2]" by (simp add: nsamples_def)
  with w show "length (buf d) = 2 * nsamples d" by simp
qed

lemma accepted_quarters:
  assumes "accepted d"
  obtains q where "nsamples d = 4 * q" "0 < q"
proof -
  from assms have "nsamples d mod 4 = 0" "4 \<le> nsamples d"
    by (simp_all add: accepted_def)
  then obtain q where q: "nsamples d = 4 * q" by (auto simp: mod_eq_0_iff_dvd elim: dvdE)
  with \<open>4 \<le> nsamples d\<close> have "0 < q" by simp
  with q show ?thesis by (rule that)
qed

section \<open>Shape validation\<close>

lemma check_shape_rows:
  assumes "shape data = [n, 2]"
  shows "check_shape data =
     (if 4 \<le> n \<and> (\<exists>k. n = 2 ^ k) then Inr ()
      else Inl (SystemExit ''ERROR: Expected power-of-two record length'' 1))"
proof (cases "4 \<le> n")
  case True
  then have "0 < n" by simp
  note p = and_pred_int [OF this]
  have "check_shape data =
      (if int n AND (int n - 1) \<noteq> 0
       then Inl (SystemExit ''ERROR: Expected power-of-two record length'' 1) else Inr ())"
    using assms True by (simp add: check_shape_def)
  also have "\<dots> = (if \<exists>k. n = 2 ^ k then Inr ()
      else Inl (SystemExit ''ERROR: Expected power-of-two record length'' 1))"
    unfolding p [symmetric] by simp
  finally show ?thesis using True by simp
next
  case False
  then show ?thesis using assms by (simp add: check_shape_def)
qed

text \<open>
  Claim C4. The driver checks the sample count before it calls the analysis: a table of
  \<open>n\<close> rows passes exactly when \<open>n\<close> is a power of two and at least 4. Every other
  \<open>n\<close> ends the program with exit status 1 and the message about the record length,
  and the analysis is not run; when the check passes, the driver's result is that of
  the analysis.
\<close>

theorem shape_validation:
  assumes "shape data = [n, 2]"
  shows "if 4 \<le> n \<and> (\<exists>k. n = 2 ^ k)
     then check_shape data = Inr () \<and> main_checked data = eval_sine_quality data
     else check_shape data = Inl (SystemExit ''ERROR: Expected power-of-two record length'' 1) \<and>
          main_checked data = Inl (SystemExit ''ERROR: Expected power-of-two record length'' 1)"
  unfolding main_checked_def check_shape_rows [OF assms] by simp

theorem shape_validation_witness:
  "shape sample4 = [4, 2] \<and> check_shape sample4 = Inr () \<and>
   main_checked sample4 = eval_sine_quality sample4 \<and>
   shape short3 = [3, 2] \<and>
   main_checked short3 = Inl (SystemExit ''ERROR: Expected power-of-two record length'' 1)"
proof -
  have s4: "shape sample4 = [4, 2]" by (simp add: sample4_def)
  have s3: "shape short3 = [3, 2]" by (simp add: short3_def)
  have p: "\<exists>k. (4::nat) = 2 ^ k" by (rule exI [of _ 2]) simp
  from shape_validation [OF s4] p shape_validation [OF s3] s4 s3 show ?thesis by simp
qed

text \<open>The sample counts the specification names: 1, 3, 6, 1000 fail and 4, 8, 1024 pass.\<close>

lemma shape_validation_examples:
  "check_shape \<lparr>shape = [1, 2], buf = replicate 2 0\<rparr> = Inl (SystemExit ''ERROR: Expected power-of-two record length'' 1)"
  "check_shape \<lparr>shape = [3, 2], buf = replicate 6 0\<rparr> = Inl (SystemExit ''ERROR: Expected power-of-two record length'' 1)"
  "check_shape \<lparr>shape = [6, 2], buf = replicate 12 0\<rparr> = Inl (SystemExit ''ERROR: Expected power-of-two record length'' 1)"
  "check_shape \<lparr>shape = [1000, 2], buf = replicate 2000 0\<rparr> = Inl (SystemExit ''ERROR: Expected power-of-two record length'' 1)"
  "check_shape \<lparr>shape = [4, 2], buf = replicate 8 0\<rparr> = Inr ()"
  "check_shape \<lparr>shape = [8, 2], buf = replicate 16 0\<rparr> = Inr ()"
  "check_shape \<lparr>shape = [1024, 2], buf = replicate 2048 0\<rparr> = Inr ()"
  by (simp_all add: check_shape_def)

section \<open>The two structural checks\<close>

lemma accepted_index:
  assumes "accepted d"
  shows "shape d ! 1 = 2" and "shape d ! 0 = nsamples d"
  using assms by (simp_all add: accepted_def nsamples_def)

lemma overwritten_parts:
  "shape (overwritten d) = shape d" "length (buf (overwritten d)) = length (buf d)"
  by (simp_all add: overwritten_def)

lemma nth_overwritten:
  "k < length (buf d) \<Longrightarrow>
   buf (overwritten d) ! k = (if odd k then quarter_diff d (k div 2) else buf d ! k)"
  by (simp add: overwritten_def)

lemma phase_shift_writes:
  assumes acc: "accepted d"
  shows "\<exists>d1. isub_column 1 0 (3 * nsamples d div 4) (drop (nsamples d div 4) (column 0 d)) d = Inr d1 \<and>
     isub_column 1 (3 * nsamples d div 4) (nsamples d) (take (nsamples d div 4) (column 0 d)) d1 =
       Inr (overwritten d)"
proof -
  from acc obtain q where q: "nsamples d = 4 * q" "0 < q" by (rule accepted_quarters)
  note ix = accepted_index [OF acc]
  have lb: "length (buf d) = 8 * q" using accepted_shape(2) [OF acc] q by simp
  have lc: "length (column 0 d) = 4 * q" using ix q by (simp add: length_column)
  have dv: "nsamples d div 4 = q" "3 * nsamples d div 4 = 3 * q" using q by simp_all
  let ?r1 = "drop q (column 0 d)" and ?r2 = "take q (column 0 d)"
  define d1 where "d1 = d\<lparr>buf := map (\<lambda>k. if odd k \<and> 0 \<le> k div 2 \<and> k div 2 < 3 * q
      then wrap64 (buf d ! k - ?r1 ! (k div 2 - 0)) else buf d ! k) [0..<length (buf d)]\<rparr>"
  have l1: "length ?r1 = 3 * q - 0" using lc by simp
  have i1: "isub_column 1 0 (3 * q) ?r1 d = Inr d1"
    unfolding d1_def by (rule isub_column_1 [OF l1 ix(1)])
  have s1: "shape d1 ! 1 = 2" "length (buf d1) = 8 * q" "shape d1 = shape d"
    using ix lb by (simp_all add: d1_def)
  define d2 where "d2 = d1\<lparr>buf := map (\<lambda>k. if odd k \<and> 3 * q \<le> k div 2 \<and> k div 2 < 4 * q
      then wrap64 (buf d1 ! k - ?r2 ! (k div 2 - 3 * q)) else buf d1 ! k) [0..<length (buf d1)]\<rparr>"
  have l2: "length ?r2 = 4 * q - 3 * q" using lc by simp
  have i2: "isub_column 1 (3 * q) (4 * q) ?r2 d1 = Inr d2"
    unfolding d2_def by (rule isub_column_1 [OF l2 s1(1)])
  have b: "buf d2 = buf (overwritten d)"
  proof (rule nth_equalityI)
    show "length (buf d2) = length (buf (overwritten d))"
      by (simp add: d2_def s1 lb overwritten_parts)
  next
    fix k assume "k < length (buf d2)"
    then have kb: "k < 8 * q" by (simp add: d2_def s1)
    have n1: "buf d1 ! k = (if odd k \<and> k div 2 < 3 * q
        then wrap64 (buf d ! k - ?r1 ! (k div 2)) else buf d ! k)"
      using kb by (simp add: d1_def lb)
    have n2: "buf d2 ! k = (if odd k \<and> 3 * q \<le> k div 2 \<and> k div 2 < 4 * q
        then wrap64 (buf d1 ! k - ?r2 ! (k div 2 - 3 * q)) else buf d1 ! k)"
      using kb by (simp add: d2_def s1)
    have n3: "buf (overwritten d) ! k = (if odd k then quarter_diff d (k div 2) else buf d ! k)"
      using kb lb by (simp add: nth_overwritten)
    show "buf d2 ! k = buf (overwritten d) ! k"
    proof (cases "odd k")
      case False
      then show ?thesis by (simp add: n1 n2 n3)
    next
      case True
      then obtain i where i: "k = 2 * i + 1" by (auto elim: oddE)
      with kb have ib: "i < 4 * q" by simp
      have kd: "k div 2 = i" using i by simp
      have c: "cos_values d ! i = buf d ! k"
        using ib i ix q by (simp add: cos_values_def nth_column mult.commute)
      show ?thesis
      proof (cases "i < 3 * q")
        case lo: True
        have "?r1 ! i = sin_values d ! (i + q)"
          using lc by (simp add: sin_values_def add.commute)
        with True lo show ?thesis
          by (simp add: n1 n2 n3 kd quarter_diff_def dv c)
      next
        case hi: False
        then have "i - 3 * q < q" using ib by simp
        then have "?r2 ! (i - 3 * q) = sin_values d ! (i - 3 * q)"
          by (simp add: sin_values_def)
        with True hi ib show ?thesis
          by (simp add: n1 n2 n3 kd quarter_diff_def dv c)
      qed
    qed
  qed
  have "d2 = overwritten d"
    using b by (simp add: d2_def d1_def overwritten_def)
  with i1 i2 show ?thesis by (simp add: dv q)
qed

lemma column_overwritten:
  assumes acc: "accepted d"
  shows "column 1 (overwritten d) = map (quarter_diff d) [0..<nsamples d]"
    and "column 0 (overwritten d) = column 0 d"
proof -
  note ix = accepted_index [OF acc]
  have lb: "length (buf d) = 2 * nsamples d" by (rule accepted_shape(2) [OF acc])
  show "column 1 (overwritten d) = map (quarter_diff d) [0..<nsamples d]"
    unfolding column_def overwritten_parts ix
    by (rule map_cong [OF refl]) (simp add: nth_overwritten lb)
  show "column 0 (overwritten d) = column 0 d"
    unfolding column_def overwritten_parts ix
    by (rule map_cong [OF refl]) (simp add: nth_overwritten lb)
qed

lemma phase_shift_check_accepted:
  assumes acc: "accepted d"
  shows "phase_shift_check (nsamples d) (column 0 d) d =
     Inr ((Min (quarter_diff d ` {0..<nsamples d}), Max (quarter_diff d ` {0..<nsamples d})),
          overwritten d)"
proof -
  from acc have "0 < nsamples d" by (simp add: accepted_def)
  then have ne: "map (quarter_diff d) [0..<nsamples d] \<noteq> []" by simp
  from phase_shift_writes [OF acc] obtain d1 where
    w1: "isub_column 1 0 (3 * nsamples d div 4) (drop (nsamples d div 4) (column 0 d)) d = Inr d1"
    and w2: "isub_column 1 (3 * nsamples d div 4) (nsamples d) (take (nsamples d div 4) (column 0 d)) d1 =
       Inr (overwritten d)"
    by blast
  show ?thesis
    unfolding phase_shift_check_def w1 sum.case w2 column_overwritten(1) [OF acc]
      amin_Min [OF ne] amax_Max [OF ne]
    by simp
qed

lemma negation_check_accepted:
  assumes acc: "accepted d"
  shows "negation_check (nsamples d) (sin_values d) =
     Inr (Min (half_sum d ` {0..<nsamples d div 2}), Max (half_sum d ` {0..<nsamples d div 2}))"
proof -
  from acc obtain q where q: "nsamples d = 4 * q" "0 < q" by (rule accepted_quarters)
  have lc: "length (sin_values d) = 4 * q"
    using accepted_index [OF acc] q by (simp add: sin_values_def length_column)
  have h: "nsamples d div 2 = 2 * q" using q by simp
  let ?a = "take (2 * q) (sin_values d)" and ?b = "drop (2 * q) (sin_values d)"
  have t: "map2 (\<lambda>x y. wrap64 (x + y)) ?a ?b = map (half_sum d) [0..<2 * q]"
    by (rule nth_equalityI) (simp_all add: lc half_sum_def h add.commute)
  have ne: "map (half_sum d) [0..<2 * q] \<noteq> []" using q by simp
  have "np_add ?a ?b = Inr (map (half_sum d) [0..<2 * q])"
    using lc t by (simp add: np_add_def)
  then show ?thesis
    unfolding negation_check_def h
    using amin_Min [OF ne] amax_Max [OF ne] by simp
qed

lemma valid_accepted:
  assumes "valid_sample_set d"
  shows "accepted d"
proof -
  from assms have w: "wf_ndarray d" and c: "check_shape d = Inr ()"
    by (simp_all add: valid_sample_set_def)
  from c have l: "length (shape d) = 2" and s: "shape d ! 1 = 2"
    by (auto simp: check_shape_def split: if_splits)
  from l obtain a b where "shape d = [a, b]"
    by (auto simp: numeral_2_eq_2 length_Suc_conv)
  with s have sh: "shape d = [nsamples d, 2]" by (simp add: nsamples_def)
  from c have "4 \<le> nsamples d \<and> (\<exists>k. nsamples d = 2 ^ k)"
    unfolding check_shape_rows [OF sh] by (simp split: if_splits)
  then have "4 \<le> nsamples d" "nsamples d mod 4 = 0"
    by (auto intro: pow2_ge4_mod4)
  with w l s show ?thesis by (simp add: accepted_def)
qed

section \<open>The whole run\<close>

lemma length_terr: "length (terr n a xs) = min (length xs) n"
  by (simp add: terr_def)

lemma length_rfft: "length (rfft x) = length x div 2 + 1"
  by (simp add: rfft_def Let_def)

lemma sfdr_of_bins:
  assumes "4 \<le> length x"
  shows "sfdr_of x =
     Inr (fl_times 20 (np_log10 (np_divide (cmod (rfft x ! 1))
                                  (Max (set (map cmod (drop 2 (rfft x))))))))"
proof -
  from assms have "2 \<le> length x div 2" by simp
  then have "map cmod (drop 2 (rfft x)) \<noteq> []" by (simp add: length_rfft)
  from amax_Max [OF this] show ?thesis by (simp add: sfdr_of_def Let_def)
qed

lemma eval_accepted:
  assumes acc: "accepted d"
  shows "eval_sine_quality d =
     Inr (\<lparr> cos_min = Min (quarter_diff d ` {0..<nsamples d}),
            cos_max = Max (quarter_diff d ` {0..<nsamples d}),
            half_min = Min (half_sum d ` {0..<nsamples d div 2}),
            half_max = Max (half_sum d ` {0..<nsamples d div 2}),
            offset = np_mean (fsin_of d),
            amplitude = ampl_of d,
            phase_offset = arctan2 (acos_of d) (asin_of d),
            peak_error = Max (set (map abs (terr_of d))),
            rms_error = np_std (terr_of d),
            sinad_db = sinad_of (ampl_of d) (np_std (terr_of d)),
            enob_bits = enob_of (sinad_of (ampl_of d) (np_std (terr_of d))),
            sfdr_db = fl_times 20 (np_log10 (np_divide (cmod (rfft (fsin_of d) ! 1))
                 (Max (set (map cmod (drop 2 (rfft (fsin_of d))))))))
          \<rparr>,
          overwritten d)"
proof -
  define n where "n = nsamples d"
  define fsin where "fsin = map real_of_int (sin_values d)"
  define a where "a = sqrt ((project n fsin (tref_sin n))\<^sup>2 + (project n fsin (tref_cos n))\<^sup>2)"
  from acc have as: "length (shape d) = 2" "shape d ! 1 = 2" "4 \<le> n" "n mod 4 = 0"
    by (simp_all add: accepted_def n_def)
  have n0: "shape d ! 0 = n" by (simp add: n_def nsamples_def)
  have lf: "length fsin = n"
    by (simp add: fsin_def sin_values_def length_column n0)
  have p: "phase_shift_check n (column 0 d) d =
      Inr ((Min (quarter_diff d ` {0..<n}), Max (quarter_diff d ` {0..<n})), overwritten d)"
    unfolding n_def by (rule phase_shift_check_accepted [OF acc])
  have h: "negation_check n (column 0 d) =
      Inr (Min (half_sum d ` {0..<n div 2}), Max (half_sum d ` {0..<n div 2}))"
    unfolding n_def sin_values_def [symmetric] by (rule negation_check_accepted [OF acc])
  have "terr n a fsin \<noteq> []"
    using as(3) lf length_terr [of n a fsin] by auto
  then have "map abs (terr n a fsin) \<noteq> []" by simp
  note pk = amax_Max [OF this]
  have sf: "sfdr_of fsin = Inr (fl_times 20 (np_log10 (np_divide (cmod (rfft fsin ! 1))
      (Max (set (map cmod (drop 2 (rfft fsin))))))))"
    using as(3) lf by (intro sfdr_of_bins) simp
  have "eval_sine_quality d =
     Inr (\<lparr> cos_min = Min (quarter_diff d ` {0..<n}),
            cos_max = Max (quarter_diff d ` {0..<n}),
            half_min = Min (half_sum d ` {0..<n div 2}),
            half_max = Max (half_sum d ` {0..<n div 2}),
            offset = np_mean fsin,
            amplitude = a,
            phase_offset = arctan2 (project n fsin (tref_cos n)) (project n fsin (tref_sin n)),
            peak_error = Max (set (map abs (terr n a fsin))),
            rms_error = np_std (terr n a fsin),
            sinad_db = sinad_of a (np_std (terr n a fsin)),
            enob_bits = enob_of (sinad_of a (np_std (terr n a fsin))),
            sfdr_db = fl_times 20 (np_log10 (np_divide (cmod (rfft fsin ! 1))
                 (Max (set (map cmod (drop 2 (rfft fsin)))))))
          \<rparr>,
          overwritten d)"
    unfolding eval_sine_quality_def Let_def n0 sin_values_def [symmetric]
      fsin_def [symmetric] a_def [symmetric]
    using as p h pk sf
    by (simp add: sin_values_def [symmetric] fsin_def [symmetric] a_def [symmetric])
  then show ?thesis
    unfolding a_def fsin_def n_def terr_of_def ampl_of_def asin_of_def acos_of_def fsin_of_def .
qed


lemma eval_fields:
  assumes acc: "accepted d"
  obtains r where "eval_sine_quality d = Inr (r, overwritten d)"
    and "cos_min r = Min (quarter_diff d ` {0..<nsamples d})"
    and "cos_max r = Max (quarter_diff d ` {0..<nsamples d})"
    and "half_min r = Min (half_sum d ` {0..<nsamples d div 2})"
    and "half_max r = Max (half_sum d ` {0..<nsamples d div 2})"
    and "offset r = np_mean (fsin_of d)"
    and "amplitude r = ampl_of d"
    and "phase_offset r = arctan2 (acos_of d) (asin_of d)"
    and "peak_error r = Max (set (map abs (terr_of d)))"
    and "rms_error r = np_std (terr_of d)"
    and "sinad_db r = sinad_of (ampl_of d) (np_std (terr_of d))"
    and "enob_bits r = enob_of (sinad_of (ampl_of d) (np_std (terr_of d)))"
    and "sfdr_db r = fl_times 20 (np_log10 (np_divide (cmod (rfft (fsin_of d) ! 1))
                 (Max (set (map cmod (drop 2 (rfft (fsin_of d))))))))"
proof -
  obtain r where r: "eval_sine_quality d = Inr (r, overwritten d)"
    by (simp add: eval_accepted [OF acc])
  from r eval_accepted [OF acc] have
    "r = \<lparr> cos_min = Min (quarter_diff d ` {0..<nsamples d}),
            cos_max = Max (quarter_diff d ` {0..<nsamples d}),
            half_min = Min (half_sum d ` {0..<nsamples d div 2}),
            half_max = Max (half_sum d ` {0..<nsamples d div 2}),
            offset = np_mean (fsin_of d),
            amplitude = ampl_of d,
            phase_offset = arctan2 (acos_of d) (asin_of d),
            peak_error = Max (set (map abs (terr_of d))),
            rms_error = np_std (terr_of d),
            sinad_db = sinad_of (ampl_of d) (np_std (terr_of d)),
            enob_bits = enob_of (sinad_of (ampl_of d) (np_std (terr_of d))),
            sfdr_db = fl_times 20 (np_log10 (np_divide (cmod (rfft (fsin_of d) ! 1))
                 (Max (set (map cmod (drop 2 (rfft (fsin_of d))))))))
          \<rparr>"
    by simp
  then show ?thesis
    by (intro that [of r] r) simp_all
qed

lemma eval_rejected:
  assumes "\<not> (length (shape d) = 2 \<and> shape d ! 1 = 2 \<and> 4 \<le> nsamples d \<and> nsamples d mod 4 = 0)"
  shows "eval_sine_quality d = Inl AssertionError"
  using assms by (auto simp: eval_sine_quality_def nsamples_def)

text \<open>
  Claim C10. The analysis itself asserts only that its argument is an \<open>(n, 2)\<close> array
  with \<open>n \<ge> 4\<close> and \<open>n\<close> a multiple of four. On every such array of int64 all
  assertions pass and the run ends with a report, no slice operation or reduction
  raising; on every other \<open>(n, 2)\<close> array the run ends with AssertionError. Where
  \<open>n\<close> is a multiple of four and no power of two, it is the driver that turns the
  table away.
\<close>

theorem analysis_asserts_multiple_of_four:
  assumes "wf_ndarray d" "length (shape d) = 2" "shape d ! 1 = 2"
  shows "if 4 \<le> nsamples d \<and> nsamples d mod 4 = 0
     then (\<exists>r. eval_sine_quality d = Inr (r, overwritten d)) \<and>
          ((\<nexists>k. nsamples d = 2 ^ k) \<longrightarrow>
             main_checked d = Inl (SystemExit ''ERROR: Expected power-of-two record length'' 1))
     else eval_sine_quality d = Inl AssertionError"
proof (cases "4 \<le> nsamples d \<and> nsamples d mod 4 = 0")
  case True
  with assms have acc: "accepted d" by (simp add: accepted_def)
  from accepted_shape(1) [OF acc] have
    "(\<nexists>k. nsamples d = 2 ^ k) \<longrightarrow>
       main_checked d = Inl (SystemExit ''ERROR: Expected power-of-two record length'' 1)"
    by (simp add: main_checked_def check_shape_rows)
  moreover from acc obtain r where "eval_sine_quality d = Inr (r, overwritten d)"
    by (rule eval_fields)
  ultimately show ?thesis using True by auto
next
  case False
  then have "eval_sine_quality d = Inl AssertionError"
    by (intro eval_rejected) blast
  with False show ?thesis by (simp only: if_False)
qed

theorem analysis_asserts_multiple_of_four_witness:
  "wf_ndarray twelve \<and> length (shape twelve) = 2 \<and> shape twelve ! 1 = 2 \<and>
   4 \<le> nsamples twelve \<and> nsamples twelve mod 4 = 0 \<and> (\<nexists>k. nsamples twelve = 2 ^ k) \<and>
   (\<exists>r. eval_sine_quality twelve = Inr (r, overwritten twelve)) \<and>
   main_checked twelve = Inl (SystemExit ''ERROR: Expected power-of-two record length'' 1)"
proof -
  have w: "wf_ndarray twelve"
    by (simp add: twelve_def wf_ndarray_def is_int64_def list_all_iff)
  have s: "length (shape twelve) = 2" "shape twelve ! 1 = 2" "nsamples twelve = 12"
    by (simp_all add: twelve_def nsamples_def)
  have "int 12 AND (int 12 - 1) \<noteq> 0" by simp
  then have np: "\<nexists>k. (12::nat) = 2 ^ k"
    using and_pred_int [of 12] by simp
  from analysis_asserts_multiple_of_four [OF w s(1,2)] np w s show ?thesis by simp
qed

section \<open>The structural identities and the input array\<close>

lemma upt_4: "[0..<4] = [0, 1, 2, 3]"
  by (simp add: upt_rec)

lemma upt_2: "[0..<2] = [0, 1]"
  by (simp add: upt_rec)

lemma upt_8: "[0..<8] = [0, 1, 2, 3, 4, 5, 6, 7]"
  by (simp add: upt_rec)

lemma image_upt: "f ` {0..<n} = set (map f [0..<n])"
  by simp

lemma ranges_accepted:
  assumes "accepted d"
  shows "array_after d = Inr (overwritten d)"
    and "cosine_range d = Inr (Min (set (map (quarter_diff d) [0..<nsamples d])),
                               Max (set (map (quarter_diff d) [0..<nsamples d])))"
    and "half_range d = Inr (Min (set (map (half_sum d) [0..<nsamples d div 2])),
                             Max (set (map (half_sum d) [0..<nsamples d div 2])))"
proof -
  from assms obtain r where r: "eval_sine_quality d = Inr (r, overwritten d)"
    "cos_min r = Min (quarter_diff d ` {0..<nsamples d})"
    "cos_max r = Max (quarter_diff d ` {0..<nsamples d})"
    "half_min r = Min (half_sum d ` {0..<nsamples d div 2})"
    "half_max r = Max (half_sum d ` {0..<nsamples d div 2})"
    by (rule eval_fields)
  show "array_after d = Inr (overwritten d)"
    by (simp add: array_after_def r(1))
  show "cosine_range d = Inr (Min (set (map (quarter_diff d) [0..<nsamples d])),
                               Max (set (map (quarter_diff d) [0..<nsamples d])))"
    unfolding image_upt [symmetric] by (simp add: cosine_range_def r)
  show "half_range d = Inr (Min (set (map (half_sum d) [0..<nsamples d div 2])),
                             Max (set (map (half_sum d) [0..<nsamples d div 2])))"
    unfolding image_upt [symmetric] by (simp add: half_range_def r)
qed

lemma valid_sample4: "valid_sample_set sample4"
  by (simp add: valid_sample_set_def wf_ndarray_def is_int64_def check_shape_def sample4_def)

lemma valid_wrapped4: "valid_sample_set wrapped4"
  by (simp add: valid_sample_set_def wf_ndarray_def is_int64_def check_shape_def wrapped4_def)

lemma valid_lowest4: "valid_sample_set lowest4"
  by (simp add: valid_sample_set_def wf_ndarray_def is_int64_def check_shape_def lowest4_def)

lemma overwritten_sample4:
  "overwritten sample4 = \<lparr>shape = [4, 2], buf = [0, 0, 1, 0, 0, 0, - 1, 0]\<rparr>"
  by (simp add: overwritten_def sample4_def upt_8 upt_4 quarter_diff_def nsamples_def
      cos_values_def sin_values_def column_def wrap64_def)

lemma cosine_range_sample4: "cosine_range sample4 = Inr (0, 0)"
  unfolding ranges_accepted(2) [OF valid_accepted [OF valid_sample4]]
  by (simp add: sample4_def upt_4 quarter_diff_def nsamples_def
      cos_values_def sin_values_def column_def wrap64_def)


lemma is_int64_entries:
  assumes acc: "accepted d" and i: "i < nsamples d"
  shows "is_int64 (sin_values d ! i)" and "is_int64 (cos_values d ! i)"
proof -
  note ix = accepted_index [OF acc]
  have lb: "length (buf d) = 2 * nsamples d" by (rule accepted_shape(2) [OF acc])
  from acc have all: "\<forall>x\<in>set (buf d). is_int64 x"
    by (simp add: accepted_def wf_ndarray_def list_all_iff)
  have "sin_values d ! i = buf d ! (i * 2 + 0)" "cos_values d ! i = buf d ! (i * 2 + 1)"
    using i ix by (simp_all add: sin_values_def cos_values_def nth_column)
  moreover have "buf d ! (i * 2 + 0) \<in> set (buf d)" "buf d ! (i * 2 + 1) \<in> set (buf d)"
    using i lb by (simp_all add: nth_mem)
  ultimately show "is_int64 (sin_values d ! i)" and "is_int64 (cos_values d ! i)"
    using all by simp_all
qed

lemma shifted_index:
  assumes acc: "accepted d" and i: "i < nsamples d"
  shows "(i + nsamples d div 4) mod nsamples d =
     (if i < 3 * nsamples d div 4 then i + nsamples d div 4 else i - 3 * nsamples d div 4)"
    and "(i + nsamples d div 4) mod nsamples d < nsamples d"
proof -
  from acc obtain q where q: "nsamples d = 4 * q" "0 < q" by (rule accepted_quarters)
  have dv: "nsamples d div 4 = q" "3 * nsamples d div 4 = 3 * q" using q by simp_all
  show "(i + nsamples d div 4) mod nsamples d =
     (if i < 3 * nsamples d div 4 then i + nsamples d div 4 else i - 3 * nsamples d div 4)"
  proof (cases "i < 3 * q")
    case True
    then have "i + q < 4 * q" by simp
    then have "(i + q) mod (4 * q) = i + q" by (rule mod_less)
    with True show ?thesis by (simp add: dv q)
  next
    case False
    then have "4 * q \<le> i + q" by simp
    then have "(i + q) mod (4 * q) = (i + q - 4 * q) mod (4 * q)" by (rule le_mod_geq)
    also have "i + q - 4 * q = i - 3 * q" by simp
    also have "(i - 3 * q) mod (4 * q) = i - 3 * q"
      using i q by (intro mod_less) simp
    finally show ?thesis using False by (simp add: dv q)
  qed
  show "(i + nsamples d div 4) mod nsamples d < nsamples d"
    using q by simp
qed

lemma quarter_diff_wrap:
  assumes acc: "accepted d" and i: "i < nsamples d"
  shows "quarter_diff d i = wrap64 (spec_quarter_diff d i)"
  unfolding quarter_diff_def spec_quarter_diff_def shifted_index(1) [OF acc i] by simp

lemma quarter_diff_zero:
  assumes acc: "accepted d" and i: "i < nsamples d"
  shows "quarter_diff d i = 0 \<longleftrightarrow>
     cos_values d ! i = sin_values d ! ((i + nsamples d div 4) mod nsamples d)"
  unfolding quarter_diff_wrap [OF acc i] spec_quarter_diff_def
  by (rule wrap64_diff_zero
      [OF is_int64_entries(2) [OF acc i] is_int64_entries(1) [OF acc shifted_index(2) [OF acc i]]])

lemma half_sum_wrap: "half_sum d i = wrap64 (spec_half_sum d i)"
  by (simp add: half_sum_def spec_half_sum_def)

lemma Min_Max_zero:
  fixes S :: "int set"
  assumes "finite S" "S \<noteq> {}"
  shows "Min S = 0 \<and> Max S = 0 \<longleftrightarrow> (\<forall>x\<in>S. x = 0)"
proof
  assume z: "Min S = 0 \<and> Max S = 0"
  show "\<forall>x\<in>S. x = 0"
  proof
    fix x assume "x \<in> S"
    with assms have "Min S \<le> x" "x \<le> Max S" by simp_all
    with z show "x = 0" by simp
  qed
next
  assume a: "\<forall>x\<in>S. x = 0"
  from assms have "Min S \<in> S" "Max S \<in> S" by simp_all
  with a show "Min S = 0 \<and> Max S = 0" by simp
qed

text \<open>
  Claim C2, as the code has it. The quarter-period check forms, for every \<open>i < N\<close>, the
  difference \<open>cos[i] - sin[(i + N/4) mod N]\<close>, the index being \<open>i + N/4\<close> on the first
  \<open>3N/4\<close> positions and \<open>i - 3N/4\<close> on the last \<open>N/4\<close>, and reports the minimum and the
  maximum. The subtraction is that of int64: each difference is reduced by wrap-around,
  so the reported values are the minimum and maximum of the mathematical differences
  whenever every difference lies in the int64 range. The reported range is \<open>(0, 0)\<close>
  exactly when \<open>cos[i] = sin[(i + N/4) mod N]\<close> for every \<open>i\<close>.
\<close>

theorem quarter_period_range:
  assumes v: "valid_sample_set d"
  shows "\<exists>r. eval_sine_quality d = Inr (r, overwritten d) \<and>
     (\<forall>i<nsamples d. (i + nsamples d div 4) mod nsamples d =
        (if i < 3 * nsamples d div 4 then i + nsamples d div 4 else i - 3 * nsamples d div 4)) \<and>
     cos_min r = Min ((\<lambda>i. wrap64 (spec_quarter_diff d i)) ` {0..<nsamples d}) \<and>
     cos_max r = Max ((\<lambda>i. wrap64 (spec_quarter_diff d i)) ` {0..<nsamples d}) \<and>
     ((\<forall>i<nsamples d. is_int64 (spec_quarter_diff d i)) \<longrightarrow>
        cos_min r = Min (spec_quarter_diff d ` {0..<nsamples d}) \<and>
        cos_max r = Max (spec_quarter_diff d ` {0..<nsamples d})) \<and>
     (cos_min r = 0 \<and> cos_max r = 0 \<longleftrightarrow>
        (\<forall>i<nsamples d. cos_values d ! i = sin_values d ! ((i + nsamples d div 4) mod nsamples d)))"
proof -
  from v have acc: "accepted d" by (rule valid_accepted)
  then have pos: "0 < nsamples d" by (simp add: accepted_def)
  from acc obtain r where r: "eval_sine_quality d = Inr (r, overwritten d)"
    "cos_min r = Min (quarter_diff d ` {0..<nsamples d})"
    "cos_max r = Max (quarter_diff d ` {0..<nsamples d})"
    by (rule eval_fields)
  have w: "quarter_diff d ` {0..<nsamples d} = (\<lambda>i. wrap64 (spec_quarter_diff d i)) ` {0..<nsamples d}"
    by (rule image_cong [OF refl]) (simp add: quarter_diff_wrap [OF acc])
  have e: "(\<lambda>i. wrap64 (spec_quarter_diff d i)) ` {0..<nsamples d} = spec_quarter_diff d ` {0..<nsamples d}"
    if "\<forall>i<nsamples d. is_int64 (spec_quarter_diff d i)"
    using that by (intro image_cong [OF refl]) (simp add: wrap64_id)
  have fin: "finite (quarter_diff d ` {0..<nsamples d})" "quarter_diff d ` {0..<nsamples d} \<noteq> {}"
    using pos by simp_all
  have z: "cos_min r = 0 \<and> cos_max r = 0 \<longleftrightarrow>
      (\<forall>i<nsamples d. cos_values d ! i = sin_values d ! ((i + nsamples d div 4) mod nsamples d))"
    unfolding r(2,3) Min_Max_zero [OF fin]
    using quarter_diff_zero [OF acc] by auto
  have ix: "\<forall>i<nsamples d. (i + nsamples d div 4) mod nsamples d =
        (if i < 3 * nsamples d div 4 then i + nsamples d div 4 else i - 3 * nsamples d div 4)"
    using shifted_index(1) [OF acc] by blast
  from r(1) ix r(2,3) [unfolded w] e z show ?thesis
    by (intro exI [of _ r] conjI impI) simp_all
qed

theorem quarter_period_range_witness:
  "valid_sample_set sample4 \<and>
   list_all (\<lambda>i. is_int64 (spec_quarter_diff sample4 i)) [0..<nsamples sample4] \<and>
   (\<exists>r. eval_sine_quality sample4 = Inr (r, overwritten sample4) \<and>
      cos_min r = Min (spec_quarter_diff sample4 ` {0..<nsamples sample4}) \<and>
      cos_max r = Max (spec_quarter_diff sample4 ` {0..<nsamples sample4}))"
proof -
  have n: "nsamples sample4 = 4" by (simp add: nsamples_def sample4_def)
  have "list_all (\<lambda>i. is_int64 (spec_quarter_diff sample4 i)) [0..<4]"
    unfolding upt_4
    by (simp add: spec_quarter_diff_def nsamples_def is_int64_def cos_values_def sin_values_def
        column_def sample4_def upt_4)
  then have l: "list_all (\<lambda>i. is_int64 (spec_quarter_diff sample4 i)) [0..<nsamples sample4]"
    unfolding n .
  then have h: "\<forall>i<nsamples sample4. is_int64 (spec_quarter_diff sample4 i)"
    by (simp add: list_all_iff)
  from quarter_period_range [OF valid_sample4] h l valid_sample4 show ?thesis by blast
qed

text \<open>
  With unbounded integers the claim fails: on \<open>wrapped4\<close> the difference at position 0
  is \<open>- 2^63 - 1\<close>, which int64 subtraction turns into \<open>2^63 - 1\<close>.
\<close>

theorem quarter_period_wraps:
  "cosine_range wrapped4 = Inr (0, 9223372036854775807) \<and>
   Min (spec_quarter_diff wrapped4 ` {0..<nsamples wrapped4}) = - 9223372036854775809 \<and>
   Max (spec_quarter_diff wrapped4 ` {0..<nsamples wrapped4}) = 0"
proof -
  have n: "nsamples wrapped4 = 4" by (simp add: nsamples_def wrapped4_def)
  have c: "cosine_range wrapped4 = Inr (0, 9223372036854775807)"
    unfolding ranges_accepted(2) [OF valid_accepted [OF valid_wrapped4]]
    by (simp add: wrapped4_def upt_4 quarter_diff_def nsamples_def
        cos_values_def sin_values_def column_def wrap64_def)
  have "map (spec_quarter_diff wrapped4) [0..<4] = [- 9223372036854775809, 0, 0, 0]"
    by (simp add: upt_4 spec_quarter_diff_def nsamples_def cos_values_def sin_values_def
        column_def wrapped4_def)
  then have "spec_quarter_diff wrapped4 ` {0..<nsamples wrapped4} = {- 9223372036854775809, 0}"
    unfolding n image_upt by simp
  with c show ?thesis by simp
qed


text \<open>
  Claim C3, as the code has it. The half-period check forms \<open>sin[i] + sin[i + N/2]\<close> for
  every \<open>i < N/2\<close> and reports the minimum and the maximum, with no tolerance. The
  addition is that of int64: the reported values are the minimum and maximum of the
  mathematical sums whenever every sum lies in the int64 range.
\<close>

theorem half_period_range:
  assumes v: "valid_sample_set d"
  shows "\<exists>r. eval_sine_quality d = Inr (r, overwritten d) \<and>
     half_min r = Min ((\<lambda>i. wrap64 (spec_half_sum d i)) ` {0..<nsamples d div 2}) \<and>
     half_max r = Max ((\<lambda>i. wrap64 (spec_half_sum d i)) ` {0..<nsamples d div 2}) \<and>
     ((\<forall>i<nsamples d div 2. is_int64 (spec_half_sum d i)) \<longrightarrow>
        half_min r = Min (spec_half_sum d ` {0..<nsamples d div 2}) \<and>
        half_max r = Max (spec_half_sum d ` {0..<nsamples d div 2}))"
proof -
  from v have acc: "accepted d" by (rule valid_accepted)
  from acc obtain r where r: "eval_sine_quality d = Inr (r, overwritten d)"
    "half_min r = Min (half_sum d ` {0..<nsamples d div 2})"
    "half_max r = Max (half_sum d ` {0..<nsamples d div 2})"
    by (rule eval_fields)
  have w: "half_sum d ` {0..<nsamples d div 2} =
      (\<lambda>i. wrap64 (spec_half_sum d i)) ` {0..<nsamples d div 2}"
    by (rule image_cong [OF refl]) (simp add: half_sum_wrap)
  have e: "(\<lambda>i. wrap64 (spec_half_sum d i)) ` {0..<nsamples d div 2} =
      spec_half_sum d ` {0..<nsamples d div 2}"
    if "\<forall>i<nsamples d div 2. is_int64 (spec_half_sum d i)"
    using that by (intro image_cong [OF refl]) (simp add: wrap64_id)
  from r(1) r(2,3) [unfolded w] e show ?thesis
    by (intro exI [of _ r] conjI impI) simp_all
qed

theorem half_period_range_witness:
  "valid_sample_set sample4 \<and>
   list_all (\<lambda>i. is_int64 (spec_half_sum sample4 i)) [0..<nsamples sample4 div 2] \<and>
   (\<exists>r. eval_sine_quality sample4 = Inr (r, overwritten sample4) \<and>
      half_min r = Min (spec_half_sum sample4 ` {0..<nsamples sample4 div 2}) \<and>
      half_max r = Max (spec_half_sum sample4 ` {0..<nsamples sample4 div 2}))"
proof -
  have n: "nsamples sample4 div 2 = 2" by (simp add: nsamples_def sample4_def)
  have "list_all (\<lambda>i. is_int64 (spec_half_sum sample4 i)) [0..<2]"
    unfolding upt_2
    by (simp add: spec_half_sum_def nsamples_def is_int64_def sin_values_def
        column_def sample4_def upt_4)
  then have l: "list_all (\<lambda>i. is_int64 (spec_half_sum sample4 i)) [0..<nsamples sample4 div 2]"
    unfolding n .
  then have h: "\<forall>i<nsamples sample4 div 2. is_int64 (spec_half_sum sample4 i)"
    by (simp add: list_all_iff)
  from half_period_range [OF valid_sample4] h l valid_sample4 show ?thesis by blast
qed

text \<open>
  With unbounded integers the claim fails: on \<open>lowest4\<close> every sum is \<open>- 2^64\<close>,
  which int64 addition turns into 0, and the check reports the range \<open>(0, 0)\<close>.
\<close>

theorem half_period_wraps:
  "half_range lowest4 = Inr (0, 0) \<and>
   Min (spec_half_sum lowest4 ` {0..<nsamples lowest4 div 2}) = - 18446744073709551616 \<and>
   Max (spec_half_sum lowest4 ` {0..<nsamples lowest4 div 2}) = - 18446744073709551616"
proof -
  have n: "nsamples lowest4 div 2 = 2" by (simp add: nsamples_def lowest4_def)
  have c: "half_range lowest4 = Inr (0, 0)"
    unfolding ranges_accepted(3) [OF valid_accepted [OF valid_lowest4]]
    by (simp add: lowest4_def upt_4 upt_2 half_sum_def nsamples_def
        sin_values_def column_def wrap64_def)
  have "map (spec_half_sum lowest4) [0..<2] = [- 18446744073709551616, - 18446744073709551616]"
    by (simp add: upt_4 upt_2 spec_half_sum_def nsamples_def sin_values_def column_def lowest4_def)
  then have "spec_half_sum lowest4 ` {0..<nsamples lowest4 div 2} = {- 18446744073709551616}"
    unfolding n image_upt by simp
  with c show ?thesis by simp
qed

lemma accepted_overwritten:
  assumes acc: "accepted d"
  shows "accepted (overwritten d)"
    and "nsamples (overwritten d) = nsamples d"
    and "sin_values (overwritten d) = sin_values d"
    and "cos_values (overwritten d) = map (quarter_diff d) [0..<nsamples d]"
proof -
  from acc have all: "\<forall>x\<in>set (buf d). is_int64 x"
    by (simp add: accepted_def wf_ndarray_def list_all_iff)
  have "is_int64 (if odd k then quarter_diff d (k div 2) else buf d ! k)"
    if "k < length (buf d)" for k
    using that all by (simp add: quarter_diff_def is_int64_wrap64)
  then have "list_all is_int64 (buf (overwritten d))"
    unfolding list_all_length by (simp add: overwritten_parts nth_overwritten)
  with acc show "accepted (overwritten d)"
    by (simp add: accepted_def wf_ndarray_def overwritten_parts nsamples_def)
  show "nsamples (overwritten d) = nsamples d"
    by (simp add: nsamples_def overwritten_parts)
  show "sin_values (overwritten d) = sin_values d"
    unfolding sin_values_def by (rule column_overwritten(2) [OF acc])
  show "cos_values (overwritten d) = map (quarter_diff d) [0..<nsamples d]"
    unfolding cos_values_def by (rule column_overwritten(1) [OF acc])
qed

lemma sine_locals_overwritten:
  assumes acc: "accepted d"
  shows "fsin_of (overwritten d) = fsin_of d" "asin_of (overwritten d) = asin_of d"
    "acos_of (overwritten d) = acos_of d" "ampl_of (overwritten d) = ampl_of d"
    "terr_of (overwritten d) = terr_of d" "half_sum (overwritten d) = half_sum d"
proof -
  note o = accepted_overwritten(2,3) [OF acc]
  show f: "fsin_of (overwritten d) = fsin_of d" by (simp add: fsin_of_def o)
  show s: "asin_of (overwritten d) = asin_of d" by (simp add: asin_of_def o f)
  show c: "acos_of (overwritten d) = acos_of d" by (simp add: acos_of_def o f)
  show a: "ampl_of (overwritten d) = ampl_of d" by (simp add: ampl_of_def s c)
  show "terr_of (overwritten d) = terr_of d" by (simp add: terr_of_def o f a)
  show "half_sum (overwritten d) = half_sum d" by (rule ext) (simp add: half_sum_def o)
qed

text \<open>
  Claim C1, as the code has it. Only the sine column is copied: \<open>dcos\<close> is a view of
  the caller's array, and the quarter-period check writes its differences into the
  cosine column. The run leaves the shape and the sine column as they were. A second run
  on the same array therefore reports the same half-period range, offset, amplitude,
  phase, peak and rms error, SINAD, ENOB and SFDR, all of which are computed from the
  sine column alone; its quarter-period range is computed from the overwritten cosine
  column.
\<close>

theorem analysis_overwrites_cosine:
  assumes v: "valid_sample_set d"
  shows "\<exists>r. eval_sine_quality d = Inr (r, overwritten d) \<and>
     shape (overwritten d) = shape d \<and>
     sin_values (overwritten d) = sin_values d \<and>
     cos_values (overwritten d) = map (quarter_diff d) [0..<nsamples d] \<and>
     (\<exists>r2 d2. eval_sine_quality (overwritten d) = Inr (r2, d2) \<and>
        half_min r2 = half_min r \<and> half_max r2 = half_max r \<and>
        offset r2 = offset r \<and> amplitude r2 = amplitude r \<and>
        phase_offset r2 = phase_offset r \<and> peak_error r2 = peak_error r \<and>
        rms_error r2 = rms_error r \<and> sinad_db r2 = sinad_db r \<and>
        enob_bits r2 = enob_bits r \<and> sfdr_db r2 = sfdr_db r)"
proof -
  from v have acc: "accepted d" by (rule valid_accepted)
  note o = accepted_overwritten [OF acc]
  note l = sine_locals_overwritten [OF acc]
  from acc obtain r where r: "eval_sine_quality d = Inr (r, overwritten d)"
    "half_min r = Min (half_sum d ` {0..<nsamples d div 2})"
    "half_max r = Max (half_sum d ` {0..<nsamples d div 2})"
    "offset r = np_mean (fsin_of d)"
    "amplitude r = ampl_of d"
    "phase_offset r = arctan2 (acos_of d) (asin_of d)"
    "peak_error r = Max (set (map abs (terr_of d)))"
    "rms_error r = np_std (terr_of d)"
    "sinad_db r = sinad_of (ampl_of d) (np_std (terr_of d))"
    "enob_bits r = enob_of (sinad_of (ampl_of d) (np_std (terr_of d)))"
    "sfdr_db r = fl_times 20 (np_log10 (np_divide (cmod (rfft (fsin_of d) ! 1))
                 (Max (set (map cmod (drop 2 (rfft (fsin_of d))))))))"
    by (rule eval_fields)
  from o(1) obtain r2 where r2:
    "eval_sine_quality (overwritten d) = Inr (r2, overwritten (overwritten d))"
    "half_min r2 = Min (half_sum (overwritten d) ` {0..<nsamples (overwritten d) div 2})"
    "half_max r2 = Max (half_sum (overwritten d) ` {0..<nsamples (overwritten d) div 2})"
    "offset r2 = np_mean (fsin_of (overwritten d))"
    "amplitude r2 = ampl_of (overwritten d)"
    "phase_offset r2 = arctan2 (acos_of (overwritten d)) (asin_of (overwritten d))"
    "peak_error r2 = Max (set (map abs (terr_of (overwritten d))))"
    "rms_error r2 = np_std (terr_of (overwritten d))"
    "sinad_db r2 = sinad_of (ampl_of (overwritten d)) (np_std (terr_of (overwritten d)))"
    "enob_bits r2 = enob_of (sinad_of (ampl_of (overwritten d)) (np_std (terr_of (overwritten d))))"
    "sfdr_db r2 = fl_times 20 (np_log10 (np_divide (cmod (rfft (fsin_of (overwritten d)) ! 1))
                 (Max (set (map cmod (drop 2 (rfft (fsin_of (overwritten d)))))))))"
    by (rule eval_fields)
  have same: "half_min r2 = half_min r" "half_max r2 = half_max r"
    "offset r2 = offset r" "amplitude r2 = amplitude r"
    "phase_offset r2 = phase_offset r" "peak_error r2 = peak_error r"
    "rms_error r2 = rms_error r" "sinad_db r2 = sinad_db r"
    "enob_bits r2 = enob_bits r" "sfdr_db r2 = sfdr_db r"
    unfolding r r2 l o(2) by (rule refl)+
  have "\<exists>r2 d2. eval_sine_quality (overwritten d) = Inr (r2, d2) \<and>
        half_min r2 = half_min r \<and> half_max r2 = half_max r \<and>
        offset r2 = offset r \<and> amplitude r2 = amplitude r \<and>
        phase_offset r2 = phase_offset r \<and> peak_error r2 = peak_error r \<and>
        rms_error r2 = rms_error r \<and> sinad_db r2 = sinad_db r \<and>
        enob_bits r2 = enob_bits r \<and> sfdr_db r2 = sfdr_db r"
    using r2(1) same by blast
  with r(1) o(3,4) overwritten_parts(1) [of d] show ?thesis by blast
qed

theorem analysis_overwrites_cosine_witness:
  "valid_sample_set sample4 \<and>
   (\<exists>r. eval_sine_quality sample4 = Inr (r, overwritten sample4) \<and>
     sin_values (overwritten sample4) = sin_values sample4 \<and>
     (\<exists>r2 d2. eval_sine_quality (overwritten sample4) = Inr (r2, d2) \<and>
        half_min r2 = half_min r \<and> half_max r2 = half_max r \<and>
        offset r2 = offset r \<and> amplitude r2 = amplitude r \<and>
        phase_offset r2 = phase_offset r \<and> peak_error r2 = peak_error r \<and>
        rms_error r2 = rms_error r \<and> sinad_db r2 = sinad_db r \<and>
        enob_bits r2 = enob_bits r \<and> sfdr_db r2 = sfdr_db r))"
  using analysis_overwrites_cosine [OF valid_sample4] valid_sample4 by blast

text \<open>
  The claim that the input is left unchanged fails on \<open>sample4\<close>: the run replaces its
  cosine column by zeros, and a second run on the array reports the range \<open>(-1, 1)\<close>
  where the first reported \<open>(0, 0)\<close>.
\<close>

theorem input_array_overwritten:
  "array_after sample4 = Inr \<lparr>shape = [4, 2], buf = [0, 0, 1, 0, 0, 0, - 1, 0]\<rparr> \<and>
   array_after sample4 \<noteq> Inr sample4 \<and>
   cosine_range sample4 = Inr (0, 0) \<and>
   cosine_range \<lparr>shape = [4, 2], buf = [0, 0, 1, 0, 0, 0, - 1, 0]\<rparr> = Inr (- 1, 1)"
proof -
  let ?d = "\<lparr>shape = [4, 2], buf = [0, 0, 1, 0, 0, 0, - 1, 0 :: int]\<rparr>"
  have a: "array_after sample4 = Inr ?d"
    unfolding ranges_accepted(1) [OF valid_accepted [OF valid_sample4]] overwritten_sample4 ..
  have n: "?d \<noteq> sample4" by (simp add: sample4_def)
  have acc: "accepted ?d"
    using accepted_overwritten(1) [OF valid_accepted [OF valid_sample4]]
    unfolding overwritten_sample4 .
  have c: "cosine_range ?d = Inr (- 1, 1)"
    unfolding ranges_accepted(2) [OF acc]
    by (simp add: upt_4 quarter_diff_def nsamples_def
        cos_values_def sin_values_def column_def wrap64_def)
  from a n cosine_range_sample4 c show ?thesis by simp
qed

section \<open>Four samples, evaluated\<close>

lemma valid_uneven4: "valid_sample_set uneven4"
  by (simp add: valid_sample_set_def wf_ndarray_def is_int64_def check_shape_def uneven4_def)

lemma valid_level4: "valid_sample_set level4"
  by (simp add: valid_sample_set_def wf_ndarray_def is_int64_def check_shape_def level4_def)

lemma valid_zeros4: "valid_sample_set zeros4"
  by (simp add: valid_sample_set_def wf_ndarray_def is_int64_def check_shape_def zeros4_def)

lemma three_half_pi: "sin (3 * pi / 2) = - 1" "cos (3 * pi / 2) = 0"
proof -
  have e: "3 * pi / 2 = 3 / 2 * pi" by simp
  show "sin (3 * pi / 2) = - 1" unfolding e by (rule sin_3over2_pi)
  show "cos (3 * pi / 2) = 0" unfolding e by (rule cos_3over2_pi)
qed

lemma tref_sin_4: "tref_sin 4 = [0, 1, 0, - 1]"
proof -
  have a: "2 * pi / real 4 * real 0 = 0" "2 * pi / real 4 * real 1 = pi / 2"
    "2 * pi / real 4 * real 2 = pi" "2 * pi / real 4 * real 3 = pi + pi / 2"
    by simp_all
  show ?thesis
    unfolding tref_sin_def upt_4 list.map a by (simp add: three_half_pi)
qed

lemma tref_cos_4: "tref_cos 4 = [1, 0, - 1, 0]"
proof -
  have a: "2 * pi / real 4 * real 0 = 0" "2 * pi / real 4 * real 1 = pi / 2"
    "2 * pi / real 4 * real 2 = pi" "2 * pi / real 4 * real 3 = pi + pi / 2"
    by simp_all
  show ?thesis
    unfolding tref_cos_def upt_4 list.map a by (simp add: three_half_pi)
qed

lemma terr_4:
  "terr 4 a [x0, x1, x2, x3] = [x0, x1 - a, x2, x3 + a]"
proof -
  have a: "2 * pi / real 4 * real 0 = 0" "2 * pi / real 4 * real 1 = pi / 2"
    "2 * pi / real 4 * real 2 = pi" "2 * pi / real 4 * real 3 = pi + pi / 2"
    by simp_all
  show ?thesis
    unfolding terr_def upt_4 list.map a by (simp add: three_half_pi)
qed

lemma locals_4:
  assumes "shape d = [4, 2]" "buf d = [s0, c0, s1, c1, s2, c2, s3, c3]"
  shows "nsamples d = 4"
    and "fsin_of d = [real_of_int s0, real_of_int s1, real_of_int s2, real_of_int s3]"
    and "asin_of d = (real_of_int s1 - real_of_int s3) / 2"
    and "acos_of d = (real_of_int s0 - real_of_int s2) / 2"
    and "terr_of d = [real_of_int s0, real_of_int s1 - ampl_of d,
                      real_of_int s2, real_of_int s3 + ampl_of d]"
proof -
  show n: "nsamples d = 4" using assms by (simp add: nsamples_def)
  show f: "fsin_of d = [real_of_int s0, real_of_int s1, real_of_int s2, real_of_int s3]"
    using assms by (simp add: fsin_of_def sin_values_def column_def upt_4)
  show "asin_of d = (real_of_int s1 - real_of_int s3) / 2"
    unfolding asin_of_def n f tref_sin_4 project_def by simp
  show "acos_of d = (real_of_int s0 - real_of_int s2) / 2"
    unfolding acos_of_def n f tref_cos_4 project_def by simp
  show "terr_of d = [real_of_int s0, real_of_int s1 - ampl_of d,
                      real_of_int s2, real_of_int s3 + ampl_of d]"
    unfolding terr_of_def n f by (rule terr_4)
qed

lemma locals_uneven4:
  "ampl_of uneven4 = 2" "np_std (terr_of uneven4) = 1 / 2"
proof -
  have s: "shape uneven4 = [4, 2]" "buf uneven4 = [0, 1, 3, 0, 0, - 1, - 1, 0]"
    by (simp_all add: uneven4_def)
  note l = locals_4 [OF s]
  show a: "ampl_of uneven4 = 2"
    unfolding ampl_of_def l by simp
  have q: "sqrt (1 / 4) = 1 / 2"
    by (rule real_sqrt_unique) (simp_all add: power2_eq_square)
  show "np_std (terr_of uneven4) = 1 / 2"
    unfolding l a by (simp add: np_std_def np_mean_def power2_eq_square q)
qed

lemma locals_level4:
  "ampl_of level4 = 1" "np_std (terr_of level4) = 0"
proof -
  have s: "shape level4 = [4, 2]" "buf level4 = [- 2, - 1, - 1, - 2, - 2, - 3, - 3, - 2]"
    by (simp_all add: level4_def)
  note l = locals_4 [OF s]
  show a: "ampl_of level4 = 1"
    unfolding ampl_of_def l by simp
  show "np_std (terr_of level4) = 0"
    unfolding l a by (simp add: np_std_def np_mean_def)
qed

lemma locals_zeros4:
  "ampl_of zeros4 = 0" "np_std (terr_of zeros4) = 0"
proof -
  have s: "shape zeros4 = [4, 2]" "buf zeros4 = [0, 0, 0, 0, 0, 0, 0, 0]"
    by (simp_all add: zeros4_def)
  note l = locals_4 [OF s]
  show a: "ampl_of zeros4 = 0"
    unfolding ampl_of_def l by simp
  show "np_std (terr_of zeros4) = 0"
    unfolding l a by (simp add: np_std_def np_mean_def)
qed

lemma ampl_of_nonneg: "0 \<le> ampl_of d"
  by (simp add: ampl_of_def)

lemma np_std_nonneg: "0 \<le> np_std xs"
proof -
  have "0 \<le> sum_list (map (\<lambda>x. \<bar>x - np_mean xs\<bar>\<^sup>2) xs)"
    by (rule sum_list_nonneg) auto
  then have "0 \<le> np_mean (map (\<lambda>x. \<bar>x - np_mean xs\<bar>\<^sup>2) xs)"
    unfolding np_mean_def [of "map (\<lambda>x. \<bar>x - np_mean xs\<bar>\<^sup>2) xs"]
    by (rule divide_nonneg_nonneg) simp
  then show ?thesis
    unfolding np_std_def by simp
qed

lemma sinad_of_cases:
  assumes "0 \<le> a" "0 \<le> e"
  shows "0 < e \<Longrightarrow> sinad_of a e = fl_times 20 (np_log10 (Fin (a * sqrt (1 / 2) / e)))"
    and "0 < e \<Longrightarrow> 0 < a \<Longrightarrow> sinad_of a e = Fin (20 * log 10 (a * sqrt (1 / 2) / e))"
    and "0 < e \<Longrightarrow> a = 0 \<Longrightarrow> sinad_of a e = NInf"
    and "e = 0 \<Longrightarrow> 0 < a \<Longrightarrow> sinad_of a e = PInf"
    and "e = 0 \<Longrightarrow> a = 0 \<Longrightarrow> sinad_of a e = NaN"
  by (simp_all add: sinad_of_def np_divide_def)

lemma enob_of_cases:
  "enob_of (Fin s) = Fin ((s - 1.76) / 6.02)" "enob_of PInf = PInf" "enob_of NInf = NInf"
  "enob_of NaN = NaN"
  by (simp_all add: enob_of_def np_divide_def)


text \<open>
  Claim C8. Where the rms error is positive, SINAD is \<open>20 log10 (amplitude sqrt 0.5 /
  rms_error)\<close> and ENOB is \<open>(SINAD - 1.76) / 6.02\<close>, on the amplitude and rms error of
  the report: a finite number when the amplitude is positive, and \<open>-inf\<close>, the
  \<open>log10\<close> of zero, when the amplitude is zero.
\<close>

theorem sinad_and_enob:
  assumes v: "valid_sample_set d"
  shows "\<exists>r. eval_sine_quality d = Inr (r, overwritten d) \<and>
     (0 < rms_error r \<longrightarrow>
        sinad_db r = fl_times 20 (np_log10 (Fin (amplitude r * sqrt (1 / 2) / rms_error r))) \<and>
        enob_bits r = fl_divide (fl_minus (sinad_db r) 1.76) 6.02 \<and>
        (0 < amplitude r \<longrightarrow>
           sinad_db r = Fin (20 * log 10 (amplitude r * sqrt (1 / 2) / rms_error r)) \<and>
           enob_bits r =
             Fin ((20 * log 10 (amplitude r * sqrt (1 / 2) / rms_error r) - 1.76) / 6.02)) \<and>
        (amplitude r = 0 \<longrightarrow> sinad_db r = NInf \<and> enob_bits r = NInf))"
proof -
  from v have acc: "accepted d" by (rule valid_accepted)
  from acc obtain r where r: "eval_sine_quality d = Inr (r, overwritten d)"
    "amplitude r = ampl_of d"
    "rms_error r = np_std (terr_of d)"
    "sinad_db r = sinad_of (ampl_of d) (np_std (terr_of d))"
    "enob_bits r = enob_of (sinad_of (ampl_of d) (np_std (terr_of d)))"
    by (rule eval_fields)
  note c = sinad_of_cases [OF ampl_of_nonneg [of d] np_std_nonneg [of "terr_of d"]]
  have A: "sinad_db r = fl_times 20 (np_log10 (Fin (amplitude r * sqrt (1 / 2) / rms_error r)))"
    if "0 < rms_error r"
    using that unfolding r(2-4) by (rule c(1))
  have B: "enob_bits r = fl_divide (fl_minus (sinad_db r) 1.76) 6.02"
    unfolding r(4,5) enob_of_def ..
  have C: "sinad_db r = Fin (20 * log 10 (amplitude r * sqrt (1 / 2) / rms_error r)) \<and>
      enob_bits r = Fin ((20 * log 10 (amplitude r * sqrt (1 / 2) / rms_error r) - 1.76) / 6.02)"
    if "0 < rms_error r" "0 < amplitude r"
  proof -
    from that have "sinad_of (ampl_of d) (np_std (terr_of d)) =
        Fin (20 * log 10 (ampl_of d * sqrt (1 / 2) / np_std (terr_of d)))"
      unfolding r(2,3) by (rule c(2))
    then show ?thesis
      unfolding r(2-5) by (simp only: enob_of_cases(1) simp_thms)
  qed
  have D: "sinad_db r = NInf \<and> enob_bits r = NInf"
    if "0 < rms_error r" "amplitude r = 0"
  proof -
    from that have "sinad_of (ampl_of d) (np_std (terr_of d)) = NInf"
      unfolding r(2,3) by (rule c(3))
    then show ?thesis
      unfolding r(4,5) by (simp only: enob_of_cases(3) simp_thms)
  qed
  from r(1) A B C D show ?thesis by blast
qed

theorem sinad_and_enob_witness:
  "valid_sample_set uneven4 \<and>
   (\<exists>r. eval_sine_quality uneven4 = Inr (r, overwritten uneven4) \<and>
     0 < rms_error r \<and> 0 < amplitude r \<and>
     sinad_db r = Fin (20 * log 10 (amplitude r * sqrt (1 / 2) / rms_error r)) \<and>
     enob_bits r = Fin ((20 * log 10 (amplitude r * sqrt (1 / 2) / rms_error r) - 1.76) / 6.02))"
proof -
  from sinad_and_enob [OF valid_uneven4] obtain r where
    e: "eval_sine_quality uneven4 = Inr (r, overwritten uneven4)"
    and i: "0 < rms_error r \<longrightarrow>
        sinad_db r = fl_times 20 (np_log10 (Fin (amplitude r * sqrt (1 / 2) / rms_error r))) \<and>
        enob_bits r = fl_divide (fl_minus (sinad_db r) 1.76) 6.02 \<and>
        (0 < amplitude r \<longrightarrow>
           sinad_db r = Fin (20 * log 10 (amplitude r * sqrt (1 / 2) / rms_error r)) \<and>
           enob_bits r =
             Fin ((20 * log 10 (amplitude r * sqrt (1 / 2) / rms_error r) - 1.76) / 6.02)) \<and>
        (amplitude r = 0 \<longrightarrow> sinad_db r = NInf \<and> enob_bits r = NInf)"
    by blast
  from valid_accepted [OF valid_uneven4] obtain r' where
    "eval_sine_quality uneven4 = Inr (r', overwritten uneven4)"
    "amplitude r' = ampl_of uneven4" "rms_error r' = np_std (terr_of uneven4)"
    by (rule eval_fields)
  with e have "amplitude r = 2" "rms_error r = 1 / 2"
    by (simp_all add: locals_uneven4)
  then have p: "0 < rms_error r" "0 < amplitude r" by simp_all
  with i e valid_uneven4 show ?thesis by blast
qed

section \<open>A zero rms error\<close>

text \<open>
  Claim C5, as the code has it. The division by the rms error has no guard. Where the rms
  error is zero the run still ends with a report, and SINAD and ENOB are what the division
  by zero gives: \<open>+inf\<close> when the amplitude is positive, NaN when the amplitude is zero
  as well.
\<close>

theorem zero_rms_error_unguarded:
  assumes v: "valid_sample_set d"
  shows "\<exists>r. eval_sine_quality d = Inr (r, overwritten d) \<and>
     (rms_error r = 0 \<longrightarrow>
        (if 0 < amplitude r then sinad_db r = PInf \<and> enob_bits r = PInf
         else sinad_db r = NaN \<and> enob_bits r = NaN))"
proof -
  from v have acc: "accepted d" by (rule valid_accepted)
  from acc obtain r where r: "eval_sine_quality d = Inr (r, overwritten d)"
    "amplitude r = ampl_of d"
    "rms_error r = np_std (terr_of d)"
    "sinad_db r = sinad_of (ampl_of d) (np_std (terr_of d))"
    "enob_bits r = enob_of (sinad_of (ampl_of d) (np_std (terr_of d)))"
    by (rule eval_fields)
  note c = sinad_of_cases [OF ampl_of_nonneg [of d] np_std_nonneg [of "terr_of d"]]
  have P: "sinad_db r = PInf \<and> enob_bits r = PInf"
    if "rms_error r = 0" "0 < amplitude r"
  proof -
    from that have "sinad_of (ampl_of d) (np_std (terr_of d)) = PInf"
      unfolding r(2,3) by (rule c(4))
    then show ?thesis
      unfolding r(4,5) by (simp only: enob_of_cases(2) simp_thms)
  qed
  have N: "sinad_db r = NaN \<and> enob_bits r = NaN"
    if "rms_error r = 0" "\<not> 0 < amplitude r"
  proof -
    from that(2) ampl_of_nonneg [of d] have "ampl_of d = 0"
      unfolding r(2) by simp
    with that(1) have "sinad_of (ampl_of d) (np_std (terr_of d)) = NaN"
      unfolding r(3) by (intro c(5))
    then show ?thesis
      unfolding r(4,5) by (simp only: enob_of_cases(4) simp_thms)
  qed
  from r(1) P N show ?thesis by (intro exI [of _ r]) auto
qed

theorem zero_rms_error_unguarded_witness:
  "valid_sample_set level4 \<and>
   (\<exists>r. eval_sine_quality level4 = Inr (r, overwritten level4) \<and>
     rms_error r = 0 \<and> 0 < amplitude r \<and> sinad_db r = PInf \<and> enob_bits r = PInf) \<and>
   valid_sample_set zeros4 \<and>
   (\<exists>r. eval_sine_quality zeros4 = Inr (r, overwritten zeros4) \<and>
     rms_error r = 0 \<and> amplitude r = 0 \<and> sinad_db r = NaN \<and> enob_bits r = NaN)"
proof -
  from zero_rms_error_unguarded [OF valid_level4] obtain r where
    e: "eval_sine_quality level4 = Inr (r, overwritten level4)"
    and i: "rms_error r = 0 \<longrightarrow>
        (if 0 < amplitude r then sinad_db r = PInf \<and> enob_bits r = PInf
         else sinad_db r = NaN \<and> enob_bits r = NaN)"
    by blast
  from valid_accepted [OF valid_level4] obtain r' where
    "eval_sine_quality level4 = Inr (r', overwritten level4)"
    "amplitude r' = ampl_of level4" "rms_error r' = np_std (terr_of level4)"
    by (rule eval_fields)
  with e have p: "amplitude r = 1" "rms_error r = 0"
    by (simp_all add: locals_level4)
  with i have "sinad_db r = PInf \<and> enob_bits r = PInf" by simp
  with p e have a: "\<exists>r. eval_sine_quality level4 = Inr (r, overwritten level4) \<and>
     rms_error r = 0 \<and> 0 < amplitude r \<and> sinad_db r = PInf \<and> enob_bits r = PInf"
    by auto
  from zero_rms_error_unguarded [OF valid_zeros4] obtain z where
    ez: "eval_sine_quality zeros4 = Inr (z, overwritten zeros4)"
    and iz: "rms_error z = 0 \<longrightarrow>
        (if 0 < amplitude z then sinad_db z = PInf \<and> enob_bits z = PInf
         else sinad_db z = NaN \<and> enob_bits z = NaN)"
    by blast
  from valid_accepted [OF valid_zeros4] obtain z' where
    "eval_sine_quality zeros4 = Inr (z', overwritten zeros4)"
    "amplitude z' = ampl_of zeros4" "rms_error z' = np_std (terr_of zeros4)"
    by (rule eval_fields)
  with ez have q: "amplitude z = 0" "rms_error z = 0"
    by (simp_all add: locals_zeros4)
  with iz have "sinad_db z = NaN \<and> enob_bits z = NaN" by simp
  with q ez have b: "\<exists>r. eval_sine_quality zeros4 = Inr (r, overwritten zeros4) \<and>
     rms_error r = 0 \<and> amplitude r = 0 \<and> sinad_db r = NaN \<and> enob_bits r = NaN"
    by auto
  from a b valid_level4 valid_zeros4 show ?thesis by blast
qed

text \<open>
  No sentinel is put in the place of the division: on a table of zeros the rms error is
  0 and SINAD and ENOB are NaN; on \<open>level4\<close>, whose error sequence is constant, the rms
  error is 0 and they are \<open>+inf\<close>.
\<close>

theorem zero_rms_error_propagates:
  "rms_result zeros4 = Inr 0 \<and> sinad_result zeros4 = Inr NaN \<and> enob_result zeros4 = Inr NaN \<and>
   rms_result level4 = Inr 0 \<and> sinad_result level4 = Inr PInf \<and> enob_result level4 = Inr PInf"
proof -
  from valid_accepted [OF valid_zeros4] obtain r where
    r: "eval_sine_quality zeros4 = Inr (r, overwritten zeros4)"
    "rms_error r = np_std (terr_of zeros4)"
    "sinad_db r = sinad_of (ampl_of zeros4) (np_std (terr_of zeros4))"
    "enob_bits r = enob_of (sinad_of (ampl_of zeros4) (np_std (terr_of zeros4)))"
    by (rule eval_fields)
  have z: "rms_result zeros4 = Inr 0 \<and> sinad_result zeros4 = Inr NaN \<and> enob_result zeros4 = Inr NaN"
    by (simp add: rms_result_def sinad_result_def enob_result_def r locals_zeros4
        sinad_of_def np_divide_def enob_of_def)
  from valid_accepted [OF valid_level4] obtain r' where
    r': "eval_sine_quality level4 = Inr (r', overwritten level4)"
    "rms_error r' = np_std (terr_of level4)"
    "sinad_db r' = sinad_of (ampl_of level4) (np_std (terr_of level4))"
    "enob_bits r' = enob_of (sinad_of (ampl_of level4) (np_std (terr_of level4)))"
    by (rule eval_fields)
  have "rms_result level4 = Inr 0 \<and> sinad_result level4 = Inr PInf \<and> enob_result level4 = Inr PInf"
    by (simp add: rms_result_def sinad_result_def enob_result_def r' locals_level4
        sinad_of_def np_divide_def enob_of_def)
  with z show ?thesis by simp
qed

end
